theory Spec2Isabelle
  imports Main "HOL-Library.Sublist"
begin

text \<open>
  The authentication gateway of the repository: the request middleware
  (\<open>validateRequest\<close>, \<open>rateLimit\<close>, \<open>validateOrigin\<close>), the in-memory mock store,
  the login and register routes built on them, the Convex functions for the same
  operations, and the validator, rate limiter and email mask that the security guide
  lists. Output to the console is left out; everything else a function does is in its
  result.
\<close>

section \<open>JavaScript strings and JSON values\<close>

text \<open>
  A JavaScript string is a sequence of UTF-16 code units. The model keeps the code units
  U+0000 .. U+00FF: a \<^typ>\<open>string\<close> is a list of 8-bit characters, each read as the code
  point of the same number. \<open>length\<close>, \<open>substring\<close> and \<open>slice\<close> count
  code units, which are the characters here.

  \<open>String.prototype.trim\<close> removes white space and line terminators from both ends,
  and the regular expression class \<open>\s\<close> matches the same characters. Below U+0100
  these are TAB, LF, VT, FF, CR, SPACE and NO-BREAK SPACE.
\<close>

definition is_js_space :: "char \<Rightarrow> bool" where
  "is_js_space c = (c \<in> set [CHR 0x09, CHR 0x0A, CHR 0x0B, CHR 0x0C, CHR 0x0D, CHR 0x20, CHR 0xA0])"

definition js_trim :: "string \<Rightarrow> string" where
  "js_trim s = rev (dropWhile is_js_space (rev (dropWhile is_js_space s)))"

text \<open>
  \<open>toLowerCase\<close> below U+0100 maps A-Z and the capital letters U+00C0 .. U+00DE (all of
  that range but the multiplication sign U+00D7) to the letter 32 code points later.
\<close>

definition char_toLowerCase :: "char \<Rightarrow> char" where
  "char_toLowerCase c =
     (let n = (of_char c :: nat)
      in if (65 \<le> n \<and> n \<le> 90) \<or> (192 \<le> n \<and> n \<le> 222 \<and> n \<noteq> 215)
         then char_of (n + 32) else c)"

definition toLowerCase :: "string \<Rightarrow> string" where
  "toLowerCase s = map char_toLowerCase s"

definition startsWith :: "string \<Rightarrow> string \<Rightarrow> bool" where
  "startsWith s p = prefix p s"

text \<open>\<open>s.split(sep)\<close> for a one-character separator: never the empty list.\<close>

fun js_split :: "char \<Rightarrow> string \<Rightarrow> string list" where
  "js_split sep [] = [[]]"
| "js_split sep (c # cs) =
     (if c = sep then [] # js_split sep cs
      else (case js_split sep cs of
              [] \<Rightarrow> [[c]]
            | p # ps \<Rightarrow> (c # p) # ps))"

text \<open>The decimal name of an array index, as \<open>Object.entries\<close> gives it.\<close>

fun show_nat :: "nat \<Rightarrow> string" where
  "show_nat n =
     (if n < 10 then [char_of (48 + n)]
      else show_nat (n div 10) @ [char_of (48 + n mod 10)])"

declare show_nat.simps [simp del]

text \<open>
  A value that \<open>request.json()\<close> returns. A number is kept as the text JavaScript prints
  for it (\<open>String(n)\<close>): the handlers only test a number for zero and print it. The
  entries of an object are in the order \<open>Object.entries\<close> lists them, with distinct keys.
\<close>

datatype json =
    JNull
  | JBool bool
  | JNum string
  | JStr string
  | JArr "json list"
  | JObj "(string \<times> json) list"

text \<open>\<open>typeof v === 'object' && v !== null\<close>: arrays and objects.\<close>

fun is_object :: "json \<Rightarrow> bool" where
  "is_object (JArr xs) = True"
| "is_object (JObj kvs) = True"
| "is_object v = False"

fun index_entries :: "nat \<Rightarrow> json list \<Rightarrow> (string \<times> json) list" where
  "index_entries i [] = []"
| "index_entries i (v # vs) = (show_nat i, v) # index_entries (Suc i) vs"

text \<open>The own enumerable properties that \<open>{ ...v }\<close> copies from an object or array.\<close>

fun own_entries :: "json \<Rightarrow> (string \<times> json) list" where
  "own_entries (JObj kvs) = kvs"
| "own_entries (JArr xs) = index_entries 0 xs"
| "own_entries v = []"

definition delete_key :: "string \<Rightarrow> (string \<times> json) list \<Rightarrow> (string \<times> json) list" where
  "delete_key k kvs = filter (\<lambda>kv. fst kv \<noteq> k) kvs"

text \<open>Reading a property: \<open>None\<close> is JavaScript's \<open>undefined\<close>.\<close>

fun field :: "json \<Rightarrow> string \<Rightarrow> json option" where
  "field (JObj kvs) k = map_of kvs k"
| "field v k = None"

text \<open>\<open>!v\<close> is false exactly for the truthy values.\<close>

fun truthy :: "json option \<Rightarrow> bool" where
  "truthy None = False"
| "truthy (Some JNull) = False"
| "truthy (Some (JBool b)) = b"
| "truthy (Some (JNum r)) = (r \<noteq> ''0'')"
| "truthy (Some (JStr s)) = (s \<noteq> [])"
| "truthy (Some (JArr xs)) = True"
| "truthy (Some (JObj kvs)) = True"

fun join_comma :: "string list \<Rightarrow> string" where
  "join_comma [] = []"
| "join_comma [s] = s"
| "join_comma (s # t # ss) = s @ '','' @ join_comma (t # ss)"

text \<open>
  \<open>String(v)\<close>, the coercion \<open>RegExp.prototype.test\<close> applies to its argument. An
  array prints its elements joined by commas, \<open>null\<close> elements as the empty string. An
  object prints as \<open>[object Object]\<close> through the inherited \<open>toString\<close>; an own
  property \<open>toString\<close>, which in a parsed body is never a function, hides it, and the
  coercion throws a \<open>TypeError\<close>: the result is \<open>None\<close>.
\<close>

fun js_String :: "json \<Rightarrow> string option" where
  "js_String JNull = Some ''null''"
| "js_String (JBool b) = Some (if b then ''true'' else ''false'')"
| "js_String (JNum r) = Some r"
| "js_String (JStr s) = Some s"
| "js_String (JArr xs) =
     map_option join_comma (those (map (\<lambda>x. if x = JNull then Some [] else js_String x) xs))"
| "js_String (JObj kvs) =
     (if ''toString'' \<in> fst ` set kvs then None else Some ''[object Object]'')"

text \<open>
  \<open>a === b\<close> for a stored value and a value of a later request. Strings, numbers and
  booleans are equal when they are the same value (a number is its printed text, and
  \<open>-0\<close> prints as \<open>0\<close>). An array or object of one parsed body is never identical to
  one of another body, whatever they hold.
\<close>

fun strict_eq :: "json \<Rightarrow> json \<Rightarrow> bool" where
  "strict_eq JNull JNull = True"
| "strict_eq (JBool a) (JBool b) = (a = b)"
| "strict_eq (JNum a) (JNum b) = (a = b)"
| "strict_eq (JStr a) (JStr b) = (a = b)"
| "strict_eq a b = False"

subsection \<open>Comparing a value with 8\<close>

text \<open>
  The register handler evaluates \<open>password.length < 8\<close> on whatever the body held, so
  the comparison may coerce its left side to a number. \<open>StringToNumber\<close> reads a string
  as the language does: white space is trimmed, the empty string is \<open>0\<close>, then a
  binary, octal or hexadecimal integer (\<open>0b\<close>, \<open>0o\<close>, \<open>0x\<close>, unsigned) or a signed
  decimal literal with an optional fraction and exponent, or \<open>Infinity\<close>; anything else
  is \<open>NaN\<close>. A number read is \<open>Scaled negative m k\<close>, the value \<open>m * 10 ^ k\<close> with its
  sign, before it is rounded to a double.
\<close>

datatype js_number = NotANumber | Infinite bool | Scaled bool nat int

definition digit_value :: "nat \<Rightarrow> char \<Rightarrow> nat option" where
  "digit_value base c =
     (let n = (of_char c :: nat);
          d = (if 48 \<le> n \<and> n \<le> 57 then n - 48
               else if 97 \<le> n \<and> n \<le> 102 then n - 87
               else if 65 \<le> n \<and> n \<le> 70 then n - 55
               else base)
      in if d < base then Some d else None)"

fun digits_value :: "nat \<Rightarrow> nat \<Rightarrow> string \<Rightarrow> nat option" where
  "digits_value base acc [] = Some acc"
| "digits_value base acc (c # cs) =
     (case digit_value base c of
        None \<Rightarrow> None
      | Some d \<Rightarrow> digits_value base (acc * base + d) cs)"

text \<open>One digit at least.\<close>

definition digits :: "nat \<Rightarrow> string \<Rightarrow> nat option" where
  "digits base s = (if s = [] then None else digits_value base 0 s)"

definition signed_integer :: "string \<Rightarrow> int option" where
  "signed_integer s =
     (case s of
        [] \<Rightarrow> None
      | c # cs \<Rightarrow>
          if c = CHR ''-'' then map_option (\<lambda>n. - int n) (digits 10 cs)
          else if c = CHR ''+'' then map_option int (digits 10 cs)
          else map_option int (digits 10 s))"

definition is_exponent_indicator :: "char \<Rightarrow> bool" where
  "is_exponent_indicator c = (c = CHR ''e'' \<or> c = CHR ''E'')"

text \<open>
  Digits with an optional dot among them (\<open>12\<close>, \<open>12.\<close>, \<open>12.5\<close>, \<open>.5\<close>) and an
  optional exponent part: the digits as one number and the power of ten.
\<close>

definition unsigned_decimal :: "string \<Rightarrow> (nat \<times> int) option" where
  "unsigned_decimal s =
     (let mantissa = takeWhile (\<lambda>c. \<not> is_exponent_indicator c) s;
          exponent = (case dropWhile (\<lambda>c. \<not> is_exponent_indicator c) s of
                        [] \<Rightarrow> Some 0
                      | indicator # signed \<Rightarrow> signed_integer signed);
          whole = takeWhile (\<lambda>c. c \<noteq> CHR ''.'') mantissa;
          fraction = (case dropWhile (\<lambda>c. c \<noteq> CHR ''.'') mantissa of
                        [] \<Rightarrow> []
                      | dot # after \<Rightarrow> after)
      in case (digits 10 (whole @ fraction), exponent) of
           (Some m, Some k) \<Rightarrow> Some (m, k - int (length fraction))
         | _ \<Rightarrow> None)"

definition decimal_literal :: "string \<Rightarrow> js_number" where
  "decimal_literal s =
     (let negative = (case s of [] \<Rightarrow> False | c # cs \<Rightarrow> c = CHR ''-'');
          unsigned = (case s of
                        [] \<Rightarrow> []
                      | c # cs \<Rightarrow> if c = CHR ''-'' \<or> c = CHR ''+'' then cs else s)
      in if unsigned = ''Infinity'' then Infinite negative
         else case unsigned_decimal unsigned of
                None \<Rightarrow> NotANumber
              | Some (m, k) \<Rightarrow> Scaled negative m k)"

definition non_decimal_literal :: "string \<Rightarrow> nat option" where
  "non_decimal_literal s =
     (case s of
        zero # letter # ds \<Rightarrow>
          if zero \<noteq> CHR ''0'' then None
          else if letter = CHR ''x'' \<or> letter = CHR ''X'' then digits 16 ds
          else if letter = CHR ''o'' \<or> letter = CHR ''O'' then digits 8 ds
          else if letter = CHR ''b'' \<or> letter = CHR ''B'' then digits 2 ds
          else None
      | _ \<Rightarrow> None)"

definition StringToNumber :: "string \<Rightarrow> js_number" where
  "StringToNumber s =
     (let t = js_trim s
      in if t = [] then Scaled False 0 0
         else case non_decimal_literal t of
                Some n \<Rightarrow> Scaled False n 0
              | None \<Rightarrow> decimal_literal t)"

text \<open>
  \<open>x < 8\<close> for the double nearest to the value read. The largest double below 8 is
  \<open>8 - 2^-50\<close>, and a value halfway between it and 8 rounds to 8, so the double is below
  8 exactly when the value is below \<open>8 - 2^-51\<close>. \<open>NaN\<close> is below nothing.
\<close>

fun less_than_8 :: "js_number \<Rightarrow> bool" where
  "less_than_8 NotANumber = False"
| "less_than_8 (Infinite negative) = negative"
| "less_than_8 (Scaled negative m k) =
     (negative \<or>
      (if 0 \<le> k then int m * 10 ^ nat k * 2 ^ 51 < 2 ^ 54 - 1
       else int m * 2 ^ 51 < (2 ^ 54 - 1) * 10 ^ nat (- k)))"

text \<open>
  \<open>v < 8\<close> for a value of the body: \<open>null\<close> and booleans count as 0 and 1, a number
  has the value its text denotes, a string is read by \<open>StringToNumber\<close>, an array or
  object is printed first (\<open>None\<close> when that throws).
\<close>

fun js_lt8 :: "json \<Rightarrow> bool option" where
  "js_lt8 JNull = Some True"
| "js_lt8 (JBool b) = Some True"
| "js_lt8 (JNum r) = Some (less_than_8 (StringToNumber r))"
| "js_lt8 (JStr s) = Some (less_than_8 (StringToNumber s))"
| "js_lt8 (JArr xs) = map_option (\<lambda>s. less_than_8 (StringToNumber s)) (js_String (JArr xs))"
| "js_lt8 (JObj kvs) = map_option (\<lambda>s. less_than_8 (StringToNumber s)) (js_String (JObj kvs))"

text \<open>
  \<open>v.length < 8\<close>: a string and an array have a length, a number and a boolean have
  none (\<open>undefined < 8\<close> is false), an object has the own property of that name if any,
  and \<open>null.length\<close> throws.
\<close>

fun length_lt8 :: "json \<Rightarrow> bool option" where
  "length_lt8 JNull = None"
| "length_lt8 (JBool b) = Some False"
| "length_lt8 (JNum r) = Some False"
| "length_lt8 (JStr s) = Some (length s < 8)"
| "length_lt8 (JArr xs) = Some (length xs < 8)"
| "length_lt8 (JObj kvs) =
     (case map_of kvs ''length'' of
        None \<Rightarrow> Some False
      | Some v \<Rightarrow> js_lt8 v)"

section \<open>The request middleware (\<open>src/app/api/auth/middleware.ts\<close>)\<close>

text \<open>
  \<open>validateRequest\<close> rejects what is not an object (\<open>null\<close> included), copies the
  own properties of the body with a spread and deletes three names from the copy. Its
  result is \<open>{ isValid: false, error }\<close> or \<open>{ isValid: true, data }\<close>.
\<close>

datatype validation = Invalid string | Valid json

definition validateRequest :: "json \<Rightarrow> validation" where
  "validateRequest body =
     (if \<not> is_object body then Invalid ''Invalid request format''
      else Valid (JObj (delete_key ''prototype'' (delete_key ''constructor''
                          (delete_key ''__proto__'' (own_entries body))))))"

text \<open>\<open>rateLimit()\<close> takes no argument and returns \<open>{ allowed: true }\<close>.\<close>

record rate_result =
  allowed :: bool

definition rateLimit :: "rate_result" where
  "rateLimit = \<lparr>allowed = True\<rparr>"

text \<open>
  What \<open>validateOrigin\<close> reads: the two request headers (\<open>headers.get\<close> gives
  \<open>null\<close>, here \<open>None\<close>, for an absent header), and from the environment whether
  \<open>NODE_ENV\<close> is \<open>production\<close> and the value of \<open>NEXT_PUBLIC_APP_URL\<close>.
  \<open>json_body\<close> is what \<open>request.json()\<close> returns, \<open>None\<close> when it throws.
\<close>

record env =
  production :: bool
  app_url :: "string option"

record request =
  origin_header :: "string option"
  referer_header :: "string option"
  json_body :: "json option"

text \<open>A header value is truthy when it is present and not the empty string.\<close>

fun header_truthy :: "string option \<Rightarrow> bool" where
  "header_truthy None = False"
| "header_truthy (Some s) = (s \<noteq> [])"

fun header_test :: "(string \<Rightarrow> bool) \<Rightarrow> string option \<Rightarrow> bool" where
  "header_test P None = False"
| "header_test P (Some s) = (s \<noteq> [] \<and> P s)"

definition is_localhost :: "string \<Rightarrow> bool" where
  "is_localhost s = (startsWith s ''http://localhost:'' \<or> startsWith s ''http://127.0.0.1:'')"

definition allowedOrigins :: "env \<Rightarrow> string option list" where
  "allowedOrigins e = [app_url e, Some ''http://localhost:3000'']"

definition or_empty :: "string option \<Rightarrow> string" where
  "or_empty a = (case a of None \<Rightarrow> [] | Some s \<Rightarrow> s)"

definition validateOrigin :: "env \<Rightarrow> request \<Rightarrow> bool" where
  "validateOrigin e r =
     (if \<not> production e then
        (if header_test is_localhost (origin_header r) then True
         else if header_test is_localhost (referer_header r) then True
         else \<not> header_truthy (origin_header r))
      else
        (if header_test (\<lambda>s. Some s \<in> set (allowedOrigins e)) (origin_header r) then True
         else if header_test (\<lambda>s. list_ex (\<lambda>a. startsWith s (or_empty a)) (allowedOrigins e))
                   (referer_header r) then True
         else \<not> header_truthy (origin_header r)))"

section \<open>The validator of the security guide\<close>

text \<open>
  The security guide gives \<open>validateRequest\<close> of the same file with a third step,
  \<open>deepSanitize\<close>, after the type check and the three deletions. The loop over
  \<open>Object.entries(obj)\<close> skips a dangerous key, trims and cuts a string, descends into
  an object (an array is rebuilt as an object keyed by its indices; \<open>null\<close> comes back
  as it is) and copies any other value.
\<close>

definition dangerous_keys :: "string list" where
  "dangerous_keys = [''__proto__'', ''constructor'', ''prototype'']"

fun deepSanitize :: "json \<Rightarrow> json"
  and sanitize_entries :: "(string \<times> json) list \<Rightarrow> (string \<times> json) list"
  and sanitize_items :: "nat \<Rightarrow> json list \<Rightarrow> (string \<times> json) list"
where
  "deepSanitize (JObj kvs) = JObj (sanitize_entries kvs)"
| "deepSanitize (JArr xs) = JObj (sanitize_items 0 xs)"
| "deepSanitize JNull = JNull"
| "deepSanitize (JBool b) = JBool b"
| "deepSanitize (JNum r) = JNum r"
| "deepSanitize (JStr s) = JStr s"
| "sanitize_entries [] = []"
| "sanitize_entries ((k, v) # rest) =
     (if k \<in> set dangerous_keys then sanitize_entries rest
      else (k, (case v of JStr s \<Rightarrow> JStr (take 1000 (js_trim s)) | _ \<Rightarrow> deepSanitize v))
           # sanitize_entries rest)"
| "sanitize_items i [] = []"
| "sanitize_items i (v # vs) =
     (if show_nat i \<in> set dangerous_keys then sanitize_items (Suc i) vs
      else (show_nat i, (case v of JStr s \<Rightarrow> JStr (take 1000 (js_trim s)) | _ \<Rightarrow> deepSanitize v))
           # sanitize_items (Suc i) vs)"

definition validateRequest_guide :: "json \<Rightarrow> validation" where
  "validateRequest_guide body =
     (if \<not> is_object body then Invalid ''Invalid request format''
      else Valid (deepSanitize (JObj (delete_key ''prototype'' (delete_key ''constructor''
                          (delete_key ''__proto__'' (own_entries body)))))))"

section \<open>The rate limiter and the security logger of the security guide\<close>

text \<open>
  \<open>RateLimiter.requests\<close> is a \<open>Map\<close> from identifier to the timestamps admitted,
  \<open>Date.now()\<close> is the argument \<open>now\<close> (milliseconds, an integer). A refusal is
  reported to \<open>SecurityLogger.logRateLimit\<close>, which prints a suspicious-activity entry of
  medium severity; \<open>security_log\<close> keeps what was printed.
\<close>

record rate_limit_event =
  event_ip :: string
  event_requestCount :: nat
  event_threshold :: nat

record rate_limiter =
  requests :: "string \<rightharpoonup> int list"
  security_log :: "rate_limit_event list"

definition logRateLimit :: "rate_limiter \<Rightarrow> string \<Rightarrow> nat \<Rightarrow> rate_limiter" where
  "logRateLimit L identifier requestCount =
     L\<lparr>security_log := security_log L @
          [\<lparr>event_ip = identifier, event_requestCount = requestCount, event_threshold = 10\<rparr>]\<rparr>"

definition history :: "rate_limiter \<Rightarrow> string \<Rightarrow> int list" where
  "history L identifier = (case requests L identifier of None \<Rightarrow> [] | Some ts \<Rightarrow> ts)"

definition isAllowed :: "rate_limiter \<Rightarrow> int \<Rightarrow> string \<Rightarrow> int \<Rightarrow> int \<Rightarrow> bool \<times> rate_limiter" where
  "isAllowed L now identifier windowMs maxRequests =
     (let windowStart = now - windowMs;
          recent = filter (\<lambda>timestamp. timestamp > windowStart) (history L identifier)
      in if int (length recent) \<ge> maxRequests
         then (False, logRateLimit L identifier (length recent))
         else (True, L\<lparr>requests := (requests L)(identifier \<mapsto> recent @ [now])\<rparr>))"

text \<open>Successive calls for one identifier with the default window and limit.\<close>

fun isAllowed_calls :: "rate_limiter \<Rightarrow> string \<Rightarrow> int list \<Rightarrow> bool list \<times> rate_limiter" where
  "isAllowed_calls L identifier [] = ([], L)"
| "isAllowed_calls L identifier (now # later) =
     (let (a, L') = isAllowed L now identifier 900000 10;
          (as, L'') = isAllowed_calls L' identifier later
      in (a # as, L''))"

text \<open>
  \<open>maskEmail\<close> destructures \<open>email.split('@')\<close>: the first piece and the second,
  which is \<open>undefined\<close> (printed so by the template) when there is no \<open>@\<close>.
  \<open>split\<close> never returns the empty array.
\<close>

definition maskEmail :: "string \<Rightarrow> string" where
  "maskEmail email =
     (case js_split (CHR ''@'') email of
        [] \<Rightarrow> []
      | localPart # rest \<Rightarrow>
          (let domain = (case rest of [] \<Rightarrow> ''undefined'' | d # _ \<Rightarrow> d)
           in if length localPart \<le> 2 then localPart @ ''***@'' @ domain
              else take 2 localPart @ ''***@'' @ domain))"

section \<open>The mock store (\<open>src/app/api/auth/mock-store.ts\<close>)\<close>

text \<open>
  The interface \<open>User\<close> declares \<open>password: string\<close>, but the register route passes the
  value of the body as it is, so a stored password is any truthy value of a body.
\<close>

record user =
  user_id :: string
  user_name :: string
  user_email :: string
  user_password :: json
  user_createdAt :: string

record auth_log =
  log_id :: string
  log_action :: string
  log_userId :: string
  log_email :: string
  log_success :: bool
  log_timestamp :: string

record mock_store =
  users :: "user list"
  authLogs :: "auth_log list"

text \<open>
  Identifiers and timestamps come from \<open>Date.now()\<close>, \<open>Math.random()\<close> and
  \<open>new Date()\<close>; each call of the store takes the values it will draw.
\<close>

record fresh =
  fresh_user_id :: string
  fresh_user_time :: string
  fresh_log_id :: string
  fresh_log_time :: string

definition findUserByEmail :: "mock_store \<Rightarrow> string \<Rightarrow> user option" where
  "findUserByEmail st email = find (\<lambda>u. user_email u = email) (users st)"

definition logAuthEvent :: "mock_store \<Rightarrow> string \<Rightarrow> string \<Rightarrow> string \<Rightarrow> bool \<Rightarrow> fresh \<Rightarrow> mock_store" where
  "logAuthEvent st action userId email success fr =
     st\<lparr>authLogs := authLogs st @
          [\<lparr>log_id = fresh_log_id fr, log_action = action, log_userId = userId,
            log_email = email, log_success = success, log_timestamp = fresh_log_time fr\<rparr>]\<rparr>"

definition createUser :: "mock_store \<Rightarrow> string \<Rightarrow> string \<Rightarrow> json \<Rightarrow> fresh \<Rightarrow> user \<times> mock_store" where
  "createUser st name email password fr =
     (let u = \<lparr>user_id = fresh_user_id fr, user_name = name, user_email = email,
                user_password = password, user_createdAt = fresh_user_time fr\<rparr>;
          st1 = st\<lparr>users := users st @ [u]\<rparr>
      in (u, logAuthEvent st1 ''user_registration'' (user_id u) (user_email u) True fr))"

text \<open>The branch of \<open>authenticateUser\<close> after the \<open>if\<close>: log the failure, return \<open>null\<close>.\<close>

definition login_failed :: "mock_store \<Rightarrow> string \<Rightarrow> fresh \<Rightarrow> user option \<times> mock_store" where
  "login_failed st email fr = (None, logAuthEvent st ''user_login_failed'' [] email False fr)"

definition authenticateUser :: "mock_store \<Rightarrow> string \<Rightarrow> json \<Rightarrow> fresh \<Rightarrow> user option \<times> mock_store" where
  "authenticateUser st email password fr =
     (case findUserByEmail st email of
        Some u \<Rightarrow>
          (if strict_eq (user_password u) password
           then (Some u, logAuthEvent st ''user_login'' (user_id u) (user_email u) True fr)
           else login_failed st email fr)
      | None \<Rightarrow> login_failed st email fr)"

text \<open>\<open>getAuthLogs(userId?)\<close>: an absent or empty \<open>userId\<close> is falsy and returns every entry.\<close>

definition getAuthLogs :: "mock_store \<Rightarrow> string option \<Rightarrow> auth_log list" where
  "getAuthLogs st userId =
     (case userId of
        Some u \<Rightarrow> (if u \<noteq> [] then filter (\<lambda>l. log_userId l = u) (authLogs st) else authLogs st)
      | None \<Rightarrow> authLogs st)"

definition empty_store :: "mock_store" where
  "empty_store = \<lparr>users = [], authLogs = []\<rparr>"

text \<open>The module creates the test user when it is loaded.\<close>

definition initial_store :: "fresh \<Rightarrow> mock_store" where
  "initial_store fr =
     snd (createUser empty_store ''Test User'' ''test@example.com'' (JStr ''testpass123'') fr)"

section \<open>The login and register routes\<close>

text \<open>
  Both routes test the email with \<open>/^[^\s@]+@[^\s@]+\.[^\s@]+$/\<close>. None of the three
  classes admits \<open>@\<close>, so a match has exactly one \<open>@\<close>: a non-empty local part
  before it, and after it a domain with a dot that is neither its first nor its last
  character; no character of the string is white space.
\<close>

definition plain_char :: "char \<Rightarrow> bool" where
  "plain_char c = (\<not> is_js_space c \<and> c \<noteq> CHR ''@'')"

definition emailRegex_test :: "string \<Rightarrow> bool" where
  "emailRegex_test s =
     (let localPart = takeWhile (\<lambda>c. c \<noteq> CHR ''@'') s
      in case dropWhile (\<lambda>c. c \<noteq> CHR ''@'') s of
           [] \<Rightarrow> False
         | at # domain \<Rightarrow>
             localPart \<noteq> [] \<and> list_all plain_char localPart \<and> list_all plain_char domain
             \<and> CHR ''.'' \<in> set (tl (butlast domain)))"

record response =
  status :: nat
  payload :: json

definition error_response :: "nat \<Rightarrow> string \<Rightarrow> response" where
  "error_response code message = \<lparr>status = code, payload = JObj [(''error'', JStr message)]\<rparr>"

definition login_success :: "user \<Rightarrow> response" where
  "login_success u =
     \<lparr>status = 200,
      payload = JObj [(''success'', JBool True), (''message'', JStr ''Login successful''),
                      (''sessionId'', JStr (user_id u)),
                      (''user'', JObj [(''name'', JStr (user_name u)), (''email'', JStr (user_email u))])]\<rparr>"

text \<open>
  The inner \<open>try\<close> block of the login handler. An \<open>email\<close> that is not a string has
  no \<open>toLowerCase\<close>: the \<open>TypeError\<close> is caught and answered with 503. The password
  goes to \<open>authenticateUser\<close> as the body held it.
\<close>

definition login_store ::
  "mock_store \<Rightarrow> fresh \<Rightarrow> json \<Rightarrow> json \<Rightarrow> response \<times> mock_store" where
  "login_store st fr email password =
     (case email of
        JStr e \<Rightarrow>
          (let (found, st') = authenticateUser st (js_trim (toLowerCase e)) password fr
           in case found of
                None \<Rightarrow> (error_response 401 ''Invalid email or password'', st')
              | Some u \<Rightarrow> (login_success u, st'))
      | _ \<Rightarrow> (error_response 503 ''Authentication service temporarily unavailable'', st))"

text \<open>
  The handler after \<open>const { email, password } = body\<close>. The two values are whatever
  the body held. A truthy \<open>email\<close> that is not a string is printed for the regular
  expression; a \<open>TypeError\<close> there reaches the outer \<open>catch\<close>, which answers 500.
\<close>

definition login_credentials ::
  "mock_store \<Rightarrow> fresh \<Rightarrow> json option \<Rightarrow> json option \<Rightarrow> response \<times> mock_store" where
  "login_credentials st fr email password =
     (if \<not> truthy email \<or> \<not> truthy password
      then (error_response 400 ''Email and password are required'', st)
      else case (email, password) of
        (Some ev, Some pv) \<Rightarrow>
          (case js_String ev of
             None \<Rightarrow> (error_response 500 ''Internal server error'', st)
           | Some text \<Rightarrow>
               (if \<not> emailRegex_test text
                then (error_response 400 ''Invalid email format'', st)
                else login_store st fr ev pv))
      | _ \<Rightarrow> (error_response 400 ''Email and password are required'', st))"

definition login_POST :: "env \<Rightarrow> mock_store \<Rightarrow> fresh \<Rightarrow> request \<Rightarrow> response \<times> mock_store" where
  "login_POST e st fr r =
     (if \<not> validateOrigin e r then (error_response 403 ''Invalid origin'', st)
      else if \<not> allowed rateLimit then (error_response 429 ''Too many requests'', st)
      else case json_body r of
        None \<Rightarrow> (error_response 500 ''Internal server error'', st)
      | Some rawBody \<Rightarrow>
          (case validateRequest rawBody of
             Invalid message \<Rightarrow> (error_response 400 message, st)
           | Valid data \<Rightarrow> login_credentials st fr (field data ''email'') (field data ''password'')))"

text \<open>The statuses of successive login requests, each with the values it draws.\<close>

fun login_statuses :: "env \<Rightarrow> mock_store \<Rightarrow> (fresh \<times> request) list \<Rightarrow> nat list" where
  "login_statuses e st [] = []"
| "login_statuses e st ((fr, r) # rest) =
     (let (resp, st') = login_POST e st fr r in status resp # login_statuses e st' rest)"

definition register_success :: "user \<Rightarrow> response" where
  "register_success u =
     \<lparr>status = 201,
      payload = JObj [(''success'', JBool True), (''message'', JStr ''Account created successfully''),
                      (''sessionId'', JStr (user_id u))]\<rparr>"

text \<open>
  The inner \<open>try\<close> block of the register handler. An \<open>email\<close> or \<open>name\<close> that is not
  a string has no \<open>toLowerCase\<close> or \<open>trim\<close>: the \<open>TypeError\<close> is caught and
  answered with 503. An existing account is found before \<open>name.trim()\<close> is evaluated.
\<close>

definition register_store ::
  "mock_store \<Rightarrow> fresh \<Rightarrow> json \<Rightarrow> json \<Rightarrow> json \<Rightarrow> response \<times> mock_store" where
  "register_store st fr name email password =
     (case email of
        JStr e \<Rightarrow>
          (case findUserByEmail st (js_trim (toLowerCase e)) of
             Some existingUser \<Rightarrow> (error_response 409 ''User with this email already exists'', st)
           | None \<Rightarrow>
               (case name of
                  JStr n \<Rightarrow>
                    (let (newUser, st') =
                           createUser st (js_trim n) (js_trim (toLowerCase e)) password fr
                     in (register_success newUser, st'))
                | _ \<Rightarrow> (error_response 503 ''Registration service temporarily unavailable'', st)))
      | _ \<Rightarrow> (error_response 503 ''Registration service temporarily unavailable'', st))"

text \<open>
  The register handler after \<open>const { name, email, password } = body\<close>. The three
  values are whatever the body held. \<open>password.length < 8\<close> and the test of the email
  coerce a value that is not a string; a \<open>TypeError\<close> there reaches the outer \<open>catch\<close>,
  which answers 500. A password that passes is stored as it is.
\<close>

definition register_fields ::
  "mock_store \<Rightarrow> fresh \<Rightarrow> json option \<Rightarrow> json option \<Rightarrow> json option \<Rightarrow> response \<times> mock_store" where
  "register_fields st fr name email password =
     (if \<not> truthy name \<or> \<not> truthy email \<or> \<not> truthy password
      then (error_response 400 ''Missing required fields: name, email, password'', st)
      else case (name, email, password) of
        (Some nv, Some ev, Some pv) \<Rightarrow>
          (case length_lt8 pv of
             None \<Rightarrow> (error_response 500 ''Internal server error'', st)
           | Some short \<Rightarrow>
               (if short
                then (error_response 400 ''Password must be at least 8 characters long'', st)
                else case js_String ev of
                  None \<Rightarrow> (error_response 500 ''Internal server error'', st)
                | Some text \<Rightarrow>
                    (if \<not> emailRegex_test text
                     then (error_response 400 ''Invalid email format'', st)
                     else register_store st fr nv ev pv)))
      | _ \<Rightarrow> (error_response 400 ''Missing required fields: name, email, password'', st))"

definition register_POST ::
  "env \<Rightarrow> mock_store \<Rightarrow> fresh \<Rightarrow> request \<Rightarrow> response \<times> mock_store" where
  "register_POST e st fr r =
     (if \<not> validateOrigin e r then (error_response 403 ''Invalid origin'', st)
      else if \<not> allowed rateLimit then (error_response 429 ''Too many requests'', st)
      else case json_body r of
        None \<Rightarrow> (error_response 500 ''Internal server error'', st)
      | Some rawBody \<Rightarrow>
          (case validateRequest rawBody of
             Invalid message \<Rightarrow> (error_response 400 message, st)
           | Valid data \<Rightarrow>
               register_fields st fr (field data ''name'') (field data ''email'') (field data ''password'')))"

section \<open>The Convex functions\<close>

text \<open>
  A table is the list of its documents in insertion order, which is the order of
  \<open>_creationTime\<close>. \<open>filter(...).first()\<close> and \<open>withIndex(..., q.eq(...)).first()\<close>
  give the oldest matching document; \<open>order("desc")\<close> on an index restricted by
  \<open>q.eq\<close> lists the matching documents newest first. \<open>Date.now()\<close> is one value for
  the whole of a mutation.
\<close>

record convex_user =
  cu_id :: string
  cu_name :: string
  cu_email :: string
  cu_emailVerificationTime :: "int option"

record convex_profile =
  cp_userId :: string
  cp_displayName :: "string option"
  cp_createdAt :: int
  cp_updatedAt :: int

record convex_log =
  cl_action :: string
  cl_userId :: "string option"
  cl_email :: "string option"
  cl_success :: bool
  cl_error :: "string option"
  cl_metadata :: "json option"
  cl_timestamp :: int

record convex_db =
  db_users :: "convex_user list"
  db_profiles :: "convex_profile list"
  db_authLogs :: "convex_log list"

text \<open>\<open>authenticateUser\<close> of \<open>convex/internal.ts\<close>: the password is not read.\<close>

definition internal_authenticateUser :: "convex_db \<Rightarrow> string \<Rightarrow> string \<Rightarrow> convex_user option" where
  "internal_authenticateUser db email password = find (\<lambda>u. cu_email u = email) (db_users db)"

text \<open>
  \<open>register\<close> of \<open>convex/authentication.ts\<close>: \<open>Inl\<close> is the error thrown;
  \<open>new_id\<close> is the identifier \<open>ctx.db.insert\<close> gives the user.
\<close>

definition register :: "convex_db \<Rightarrow> string \<Rightarrow> string \<Rightarrow> string \<Rightarrow> string \<Rightarrow> int \<Rightarrow> string + (string \<times> convex_db)" where
  "register db name email password new_id now =
     (case find (\<lambda>u. cu_email u = email) (db_users db) of
        Some existingUser \<Rightarrow> Inl ''User with this email already exists''
      | None \<Rightarrow>
          Inr (new_id,
               db\<lparr>db_users := db_users db @
                     [\<lparr>cu_id = new_id, cu_name = name, cu_email = email,
                       cu_emailVerificationTime = Some now\<rparr>],
                   db_profiles := db_profiles db @
                     [\<lparr>cp_userId = new_id, cp_displayName = Some name,
                       cp_createdAt = now, cp_updatedAt = now\<rparr>],
                   db_authLogs := db_authLogs db @
                     [\<lparr>cl_action = ''user_registered'', cl_userId = Some new_id,
                       cl_email = Some email, cl_success = True, cl_error = None,
                       cl_metadata = None, cl_timestamp = now\<rparr>]\<rparr>))"

text \<open>
  \<open>getMyAuthLogs\<close> of the Convex \<open>users\<close> module that reads the session
  (\<open>auth.getUserId\<close> gives \<open>null\<close> without one), and of the demo module
  \<open>convex/users.ts\<close>, which returns the empty array.
\<close>

definition getMyAuthLogs :: "convex_db \<Rightarrow> string option \<Rightarrow> convex_log list" where
  "getMyAuthLogs db userId =
     (case userId of
        None \<Rightarrow> []
      | Some u \<Rightarrow>
          (if u = [] then []
           else take 50 (rev (filter (\<lambda>l. cl_userId l = Some u) (db_authLogs db)))))"

definition getMyAuthLogs_demo :: "convex_db \<Rightarrow> convex_log list" where
  "getMyAuthLogs_demo db = []"

section \<open>Requests that reach the store\<close>

text \<open>
  The values a handler destructures from the body, when the body parses and
  \<open>validateRequest\<close> accepts it.
\<close>

definition request_fields :: "request \<Rightarrow> string list \<Rightarrow> json option list option" where
  "request_fields r ks =
     (case json_body r of
        None \<Rightarrow> None
      | Some rawBody \<Rightarrow>
          (case validateRequest rawBody of
             Invalid message \<Rightarrow> None
           | Valid data \<Rightarrow> Some (map (field data) ks)))"

text \<open>
  A login request passes every check before the store is asked: its origin is accepted,
  its body is an object, \<open>email\<close> is a non-empty string that matches the pattern and
  \<open>password\<close> is truthy.
\<close>

definition well_formed_login :: "env \<Rightarrow> request \<Rightarrow> string \<Rightarrow> json \<Rightarrow> bool" where
  "well_formed_login e r email password =
     (validateOrigin e r
      \<and> request_fields r [''email'', ''password''] = Some [Some (JStr email), Some password]
      \<and> email \<noteq> [] \<and> truthy (Some password) \<and> emailRegex_test email)"

text \<open>
  The same for a register request: \<open>name\<close> and \<open>password\<close> are truthy,
  \<open>password.length < 8\<close> is false, and \<open>email\<close> is a non-empty string that matches the
  pattern.
\<close>

definition well_formed_register :: "env \<Rightarrow> request \<Rightarrow> json \<Rightarrow> string \<Rightarrow> json \<Rightarrow> bool" where
  "well_formed_register e r name email password =
     (validateOrigin e r
      \<and> request_fields r [''name'', ''email'', ''password'']
          = Some [Some name, Some (JStr email), Some password]
      \<and> truthy (Some name) \<and> email \<noteq> [] \<and> truthy (Some password)
      \<and> length_lt8 password = Some False \<and> emailRegex_test email)"

text \<open>
  The invariant of the mock store behind the register route: the stored emails are
  lower-case and no two accounts have the same one.
\<close>

definition emails_unique :: "mock_store \<Rightarrow> bool" where
  "emails_unique st =
     (distinct (map user_email (users st))
      \<and> list_all (\<lambda>u. toLowerCase (user_email u) = user_email u) (users st))"

text \<open>Values for the examples: a development environment, and the draw of identifiers tagged \<open>n\<close>.\<close>

definition development :: "env" where
  "development = \<lparr>production = False, app_url = None\<rparr>"

definition draw :: "string \<Rightarrow> fresh" where
  "draw n =
     \<lparr>fresh_user_id = ''user_'' @ n, fresh_user_time = ''time_'' @ n,
      fresh_log_id = ''log_'' @ n, fresh_log_time = ''time_'' @ n\<rparr>"

definition test_user :: "user" where
  "test_user =
     \<lparr>user_id = ''user_0'', user_name = ''Test User'', user_email = ''test@example.com'',
      user_password = JStr ''testpass123'', user_createdAt = ''time_0''\<rparr>"

definition login_request :: "string \<Rightarrow> string \<Rightarrow> request" where
  "login_request email password =
     \<lparr>origin_header = Some ''http://localhost:3000'', referer_header = None,
      json_body = Some (JObj [(''email'', JStr email), (''password'', JStr password)])\<rparr>"

definition register_request :: "json \<Rightarrow> string \<Rightarrow> json \<Rightarrow> request" where
  "register_request name email password =
     \<lparr>origin_header = Some ''http://localhost:3000'', referer_header = None,
      json_body = Some (JObj [(''name'', name), (''email'', JStr email),
                              (''password'', password)])\<rparr>"

definition convex_test_db :: "convex_db" where
  "convex_test_db =
     \<lparr>db_users = [\<lparr>cu_id = ''u1'', cu_name = ''Test User'', cu_email = ''test@example.com'',
                    cu_emailVerificationTime = None\<rparr>],
      db_profiles = [], db_authLogs = []\<rparr>"

definition store_after_login :: "mock_store" where
  "store_after_login =
     snd (authenticateUser (initial_store (draw ''0'')) ''test@example.com''
            (JStr ''testpass123'') (draw ''1''))"

definition convex_log_entry :: "string \<Rightarrow> string \<Rightarrow> int \<Rightarrow> convex_log" where
  "convex_log_entry action userId time =
     \<lparr>cl_action = action, cl_userId = Some userId, cl_email = None, cl_success = True,
      cl_error = None, cl_metadata = None, cl_timestamp = time\<rparr>"

definition convex_logs_db :: "convex_db" where
  "convex_logs_db =
     \<lparr>db_users = [], db_profiles = [],
      db_authLogs = [convex_log_entry ''user_registered'' ''u1'' 1000,
                     convex_log_entry ''user_registered'' ''u2'' 2000,
                     convex_log_entry ''user_login'' ''u1'' 3000]\<rparr>"

definition empty_limiter :: "rate_limiter" where
  "empty_limiter = \<lparr>requests = Map.empty, security_log = []\<rparr>"

section \<open>What a cleaned payload may hold\<close>

text \<open>
  Some object inside the value, at any depth, has an own property named \<open>__proto__\<close>,
  \<open>constructor\<close> or \<open>prototype\<close>.
\<close>

fun dangerous_in :: "json \<Rightarrow> bool"
  and dangerous_in_entries :: "(string \<times> json) list \<Rightarrow> bool"
  and dangerous_in_items :: "json list \<Rightarrow> bool"
where
  "dangerous_in (JObj kvs) = dangerous_in_entries kvs"
| "dangerous_in (JArr xs) = dangerous_in_items xs"
| "dangerous_in JNull = False"
| "dangerous_in (JBool b) = False"
| "dangerous_in (JNum r) = False"
| "dangerous_in (JStr s) = False"
| "dangerous_in_entries [] = False"
| "dangerous_in_entries ((k, v) # rest) =
     (k \<in> set dangerous_keys \<or> dangerous_in v \<or> dangerous_in_entries rest)"
| "dangerous_in_items [] = False"
| "dangerous_in_items (v # vs) = (dangerous_in v \<or> dangerous_in_items vs)"

text \<open>The value reached from \<open>v\<close> by reading the properties named in turn.\<close>

fun at_path :: "json \<Rightarrow> string list \<Rightarrow> json option" where
  "at_path v [] = Some v"
| "at_path v (k # ks) =
     (case map_of (own_entries v) k of
        None \<Rightarrow> None
      | Some w \<Rightarrow> at_path w ks)"

text \<open>Payloads for the examples.\<close>

definition nested_payload :: "json" where
  "nested_payload =
     JObj [(''email'', JStr ''test@example.com''),
           (''profile'', JObj [(''constructor'', JObj [(''prototype'', JObj [(''isAdmin'', JBool True)])])])]"

definition padded_payload :: "json" where
  "padded_payload =
     JObj [(''name'', JStr ''  Test User  ''),
           (''bio'', JStr (replicate 1001 (CHR ''x'')))]"

section \<open>The origin guard\<close>

text \<open>
  Claim C9. A request without an \<open>Origin\<close> header is accepted by \<open>validateOrigin\<close>, in
  production and outside it, whatever its \<open>Referer\<close> header is: every branch that
  returns early returns \<open>true\<close>, and the last line returns \<open>!origin\<close>.
\<close>

theorem validateOrigin_no_origin:
  "origin_header r = None \<Longrightarrow> validateOrigin e r"
  by (simp add: validateOrigin_def)

theorem validateOrigin_no_origin_witness:
  "validateOrigin \<lparr>production = True, app_url = Some ''https://app.example''\<rparr>
     \<lparr>origin_header = None, referer_header = Some ''https://elsewhere.example/page'',
      json_body = None\<rparr>
   \<and> validateOrigin \<lparr>production = False, app_url = None\<rparr>
     \<lparr>origin_header = None, referer_header = Some ''https://elsewhere.example/page'',
      json_body = None\<rparr>"
  using
    validateOrigin_no_origin
      [of "\<lparr>origin_header = None, referer_header = Some ''https://elsewhere.example/page'',
            json_body = None\<rparr>"
          "\<lparr>production = True, app_url = Some ''https://app.example''\<rparr>"]
    validateOrigin_no_origin
      [of "\<lparr>origin_header = None, referer_header = Some ''https://elsewhere.example/page'',
            json_body = None\<rparr>"
          "\<lparr>production = False, app_url = None\<rparr>"]
  by simp

text \<open>
  Claim C10. In production with \<open>NEXT_PUBLIC_APP_URL\<close> unset, the first entry of
  \<open>allowedOrigins\<close> is \<open>undefined\<close>, the referer test for it is
  \<open>referer.startsWith('')\<close>, and \<open>validateOrigin\<close> accepts every request with a
  non-empty \<open>Referer\<close> header, whatever its \<open>Origin\<close>. The origin
  \<open>http://localhost:3000\<close> is accepted in production under every configuration. So
  production does not accept only what matches a configured entry: the example is a request
  from another site, whose referer does not start with \<open>http://localhost:3000\<close> either.
\<close>

theorem validateOrigin_production_unset:
  "(production e \<and> app_url e = None \<and> referer_header r = Some ref \<and> ref \<noteq> []
      \<longrightarrow> validateOrigin e r)
   \<and> (production e \<and> origin_header r = Some ''http://localhost:3000'' \<longrightarrow> validateOrigin e r)"
  by (auto simp add: validateOrigin_def allowedOrigins_def or_empty_def startsWith_def)

theorem validateOrigin_production_unset_witness:
  "validateOrigin \<lparr>production = True, app_url = None\<rparr>
     \<lparr>origin_header = Some ''https://evil.example'',
      referer_header = Some ''https://evil.example/login'', json_body = None\<rparr>
   \<and> \<not> startsWith ''https://evil.example/login'' ''http://localhost:3000''
   \<and> validateOrigin \<lparr>production = True, app_url = Some ''https://app.example''\<rparr>
     \<lparr>origin_header = Some ''http://localhost:3000'', referer_header = None, json_body = None\<rparr>"
  using
    validateOrigin_production_unset
      [of "\<lparr>production = True, app_url = None\<rparr>"
          "\<lparr>origin_header = Some ''https://evil.example'',
            referer_header = Some ''https://evil.example/login'', json_body = None\<rparr>"
          "''https://evil.example/login''"]
    validateOrigin_production_unset
      [of "\<lparr>production = True, app_url = Some ''https://app.example''\<rparr>"
          "\<lparr>origin_header = Some ''http://localhost:3000'', referer_header = None,
            json_body = None\<rparr>"
          "[]"]
  by (simp add: startsWith_def)

section \<open>Masking an email\<close>

lemma js_split_no_sep: "sep \<notin> set s \<Longrightarrow> js_split sep s = [s]"
  by (induction s) auto

lemma js_split_once:
  "sep \<notin> set l \<Longrightarrow> js_split sep (l @ sep # d) = l # js_split sep d"
  by (induction l) auto

text \<open>
  Claim C7. For an email \<open>localPart@domain\<close> (one \<open>@\<close>), \<open>maskEmail\<close> keeps the first
  two characters of the local part, then \<open>***\<close>, then \<open>@\<close> and the domain; a local part of
  at most two characters is kept whole. The two examples of the specification hold.
\<close>

theorem maskEmail_keeps_two:
  assumes "CHR ''@'' \<notin> set localPart" and "CHR ''@'' \<notin> set domain"
  shows "maskEmail (localPart @ ''@'' @ domain) = take 2 localPart @ ''***@'' @ domain
       \<and> (length localPart \<le> 2 \<longrightarrow>
            maskEmail (localPart @ ''@'' @ domain) = localPart @ ''***@'' @ domain)
       \<and> maskEmail ''ab@example.com'' = ''ab***@example.com''
       \<and> maskEmail ''a@example.com'' = ''a***@example.com''"
proof -
  have pieces: "js_split (CHR ''@'') (localPart @ ''@'' @ domain) = [localPart, domain]"
    using assms by (simp add: js_split_once js_split_no_sep)
  have general: "maskEmail (localPart @ ''@'' @ domain) = take 2 localPart @ ''***@'' @ domain"
    unfolding maskEmail_def pieces by simp
  have ab: "maskEmail ''ab@example.com'' = ''ab***@example.com''"
    by (simp add: maskEmail_def)
  have a: "maskEmail ''a@example.com'' = ''a***@example.com''"
    by (simp add: maskEmail_def)
  from general ab a show ?thesis by simp
qed

theorem maskEmail_keeps_two_witness:
  "maskEmail ''alice@example.com'' = ''al***@example.com''
   \<and> maskEmail ''ab@example.com'' = ''ab***@example.com''
   \<and> maskEmail ''a@example.com'' = ''a***@example.com''"
  using maskEmail_keeps_two [of "''alice''" "''example.com''"]
    maskEmail_keeps_two [of "''a''" "''example.com''"]
  by simp

section \<open>The email pattern\<close>

text \<open>
  \<open>emailRegex_test\<close> accepts the language of the regular expression: a non-empty run
  of characters that are neither white space nor \<open>@\<close>, an \<open>@\<close>, a second such run, a
  dot, a third such run.
\<close>

lemma plain_no_at: "list_all plain_char a \<Longrightarrow> takeWhile (\<lambda>c. c \<noteq> CHR ''@'') (a @ CHR ''@'' # rest) = a
   \<and> dropWhile (\<lambda>c. c \<noteq> CHR ''@'') (a @ CHR ''@'' # rest) = CHR ''@'' # rest"
  by (induction a) (auto simp add: plain_char_def)

lemma inner_dot:
  "CHR ''.'' \<in> set (tl (butlast d)) \<longleftrightarrow> (\<exists>b c. d = b @ CHR ''.'' # c \<and> b \<noteq> [] \<and> c \<noteq> [])"
proof
  assume "CHR ''.'' \<in> set (tl (butlast d))"
  then obtain ys zs where mid: "tl (butlast d) = ys @ CHR ''.'' # zs"
    by (auto simp add: in_set_conv_decomp)
  then have "butlast d \<noteq> []" by auto
  then obtain x where front: "butlast d = x # ys @ CHR ''.'' # zs"
    using mid by (cases "butlast d") auto
  then have "d \<noteq> []" by auto
  then have "d = butlast d @ [last d]" by simp
  then have "d = (x # ys) @ CHR ''.'' # (zs @ [last d])" using front by simp
  then show "\<exists>b c. d = b @ CHR ''.'' # c \<and> b \<noteq> [] \<and> c \<noteq> []" by blast
next
  assume "\<exists>b c. d = b @ CHR ''.'' # c \<and> b \<noteq> [] \<and> c \<noteq> []"
  then obtain b c where d: "d = b @ CHR ''.'' # c" and b: "b \<noteq> []" and c: "c \<noteq> []" by blast
  from c have "butlast d = b @ CHR ''.'' # butlast c" by (simp add: d butlast_append)
  with b have "tl (butlast d) = tl b @ CHR ''.'' # butlast c" by simp
  then show "CHR ''.'' \<in> set (tl (butlast d))" by simp
qed

lemma emailRegex_test_iff:
  "emailRegex_test s \<longleftrightarrow>
     (\<exists>a b c. s = a @ ''@'' @ b @ ''.'' @ c \<and> a \<noteq> [] \<and> b \<noteq> [] \<and> c \<noteq> []
        \<and> list_all plain_char a \<and> list_all plain_char b \<and> list_all plain_char c)"
proof
  assume test: "emailRegex_test s"
  let ?l = "takeWhile (\<lambda>c. c \<noteq> CHR ''@'') s"
  from test obtain at d where drop: "dropWhile (\<lambda>c. c \<noteq> CHR ''@'') s = at # d"
    and l: "?l \<noteq> []" "list_all plain_char ?l" and dp: "list_all plain_char d"
    and dot: "CHR ''.'' \<in> set (tl (butlast d))"
    by (auto simp add: emailRegex_test_def Let_def split: list.splits)
  from drop have "s = ?l @ at # d \<and> \<not> at \<noteq> CHR ''@''"
    by (rule iffD1 [OF dropWhile_eq_Cons_conv])
  then have s: "s = ?l @ CHR ''@'' # d" by blast
  from dot obtain b c where d: "d = b @ CHR ''.'' # c" and bc: "b \<noteq> []" "c \<noteq> []"
    unfolding inner_dot by blast
  from dp d have "list_all plain_char b" "list_all plain_char c" by simp_all
  moreover have "s = ?l @ ''@'' @ b @ ''.'' @ c" using s d by simp
  ultimately show "\<exists>a b c. s = a @ ''@'' @ b @ ''.'' @ c \<and> a \<noteq> [] \<and> b \<noteq> [] \<and> c \<noteq> []
        \<and> list_all plain_char a \<and> list_all plain_char b \<and> list_all plain_char c"
    using l bc by blast
next
  assume "\<exists>a b c. s = a @ ''@'' @ b @ ''.'' @ c \<and> a \<noteq> [] \<and> b \<noteq> [] \<and> c \<noteq> []
        \<and> list_all plain_char a \<and> list_all plain_char b \<and> list_all plain_char c"
  then obtain a b c where s: "s = a @ CHR ''@'' # (b @ CHR ''.'' # c)"
    and ne: "a \<noteq> []" "b \<noteq> []" "c \<noteq> []"
    and plain: "list_all plain_char a" "list_all plain_char b" "list_all plain_char c"
    by auto
  have dotp: "plain_char (CHR ''.'')" by (simp add: plain_char_def is_js_space_def)
  have inner: "CHR ''.'' \<in> set (tl (butlast (b @ CHR ''.'' # c)))"
    unfolding inner_dot using ne by blast
  show "emailRegex_test s"
    unfolding emailRegex_test_def s
    using plain_no_at [OF plain(1), of "b @ CHR ''.'' # c"] ne plain dotp inner
    by (simp add: Let_def)
qed

section \<open>Normalized emails\<close>

text \<open>
  An email that passes the pattern has no white space, and lowering the case of a
  character never makes it white space: on such an email \<open>trim\<close> does nothing.
\<close>

lemma is_js_space_code:
  "is_js_space c \<longleftrightarrow> (of_char c :: nat) \<in> {9, 10, 11, 12, 13, 32, 160}"
proof -
  have eq: "\<And>d. (c = d) = ((of_char c :: nat) = of_char d)" by simp
  show ?thesis unfolding is_js_space_def by (simp add: eq)
qed

lemma char_toLowerCase_space:
  "is_js_space (char_toLowerCase c) \<longleftrightarrow> is_js_space c"
proof (cases "(65 \<le> (of_char c :: nat) \<and> (of_char c :: nat) \<le> 90) \<or> (192 \<le> (of_char c :: nat) \<and> (of_char c :: nat) \<le> 222 \<and> (of_char c :: nat) \<noteq> 215)")
  case False
  then have "char_toLowerCase c = c"
    unfolding char_toLowerCase_def Let_def by (rule if_not_P)
  then show ?thesis by simp
next
  case True
  then have low: "char_toLowerCase c = char_of ((of_char c :: nat) + 32)"
    unfolding char_toLowerCase_def Let_def by (rule if_P)
  have small: "(of_char c :: nat) + 32 < 256" using True by arith
  then have val: "(of_char (char_toLowerCase c) :: nat) = of_char c + 32"
    unfolding low by simp
  have "\<not> is_js_space c" using True unfolding is_js_space_code by auto
  moreover have "\<not> is_js_space (char_toLowerCase c)"
    unfolding is_js_space_code val using True by auto
  ultimately show ?thesis by simp
qed

lemma find_Some_in: "find P xs = Some x \<Longrightarrow> P x \<and> x \<in> set xs"
  by (induction xs) (auto split: if_splits)

lemma dropWhile_none: "list_all (\<lambda>c. \<not> P c) s \<Longrightarrow> dropWhile P s = s"
  by (cases s) auto

lemma js_trim_no_space: "list_all (\<lambda>c. \<not> is_js_space c) s \<Longrightarrow> js_trim s = s"
proof -
  assume a: "list_all (\<lambda>c. \<not> is_js_space c) s"
  then have "list_all (\<lambda>c. \<not> is_js_space c) (rev s)" by (simp add: list_all_iff)
  with a show ?thesis by (simp add: js_trim_def dropWhile_none)
qed

lemma emailRegex_no_space:
  assumes "emailRegex_test s"
  shows "list_all (\<lambda>c. \<not> is_js_space c) s"
proof -
  let ?l = "takeWhile (\<lambda>c. c \<noteq> CHR ''@'') s"
  let ?d = "dropWhile (\<lambda>c. c \<noteq> CHR ''@'') s"
  from assms obtain at dom where d: "?d = at # dom"
    and l: "list_all plain_char ?l" and dm: "list_all plain_char dom"
    by (auto simp add: emailRegex_test_def Let_def split: list.splits)
  from d have both: "s = ?l @ at # dom \<and> \<not> at \<noteq> CHR ''@''"
    by (rule iffD1 [OF dropWhile_eq_Cons_conv])
  then have split: "s = ?l @ at # dom" and "at = CHR ''@''" by blast+
  then have at: "\<not> is_js_space at" by (simp add: is_js_space_def)
  from split
  have "list_all (\<lambda>c. \<not> is_js_space c) s = list_all (\<lambda>c. \<not> is_js_space c) (?l @ at # dom)"
    by simp
  also have "\<dots>" using l dm at by (auto simp add: list_all_iff plain_char_def)
  finally show ?thesis .
qed

lemma normalized_email:
  assumes "emailRegex_test s"
  shows "js_trim (toLowerCase s) = toLowerCase s"
proof -
  have "list_all (\<lambda>c. \<not> is_js_space c) (toLowerCase s)"
    using emailRegex_no_space [OF assms]
    by (simp add: toLowerCase_def list_all_iff char_toLowerCase_space)
  then show ?thesis by (rule js_trim_no_space)
qed

section \<open>Requests that pass the checks\<close>

lemma login_POST_well_formed:
  assumes "well_formed_login e r email password"
  shows "login_POST e st fr r = login_credentials st fr (Some (JStr email)) (Some password)"
  using assms
  by (auto simp add: well_formed_login_def request_fields_def login_POST_def rateLimit_def
      split: option.splits validation.splits)

lemma login_credentials_string:
  assumes "email \<noteq> []" "truthy (Some password)" "emailRegex_test email"
  shows "fst (login_credentials st fr (Some (JStr email)) (Some password)) =
     (case findUserByEmail st (js_trim (toLowerCase email)) of
        None \<Rightarrow> error_response 401 ''Invalid email or password''
      | Some u \<Rightarrow> if strict_eq (user_password u) password then login_success u
                  else error_response 401 ''Invalid email or password'')"
  using assms
  by (auto simp add: login_credentials_def login_store_def authenticateUser_def login_failed_def
      split: option.splits)

lemma register_POST_well_formed:
  assumes "well_formed_register e r name email password"
  shows "register_POST e st fr r =
           register_fields st fr (Some name) (Some (JStr email)) (Some password)"
  using assms
  by (auto simp add: well_formed_register_def request_fields_def register_POST_def rateLimit_def
      split: option.splits validation.splits)

lemma initial_users: "users (initial_store (draw ''0'')) = [test_user]"
  by (simp add: initial_store_def createUser_def empty_store_def logAuthEvent_def draw_def
      test_user_def Let_def)

lemma find_test_user:
  "findUserByEmail (initial_store (draw ''0'')) ''test@example.com'' = Some test_user"
  by (simp add: findUserByEmail_def initial_users) (simp add: test_user_def)

lemma find_nobody:
  "findUserByEmail (initial_store (draw ''0'')) ''nobody@example.com'' = None"
  by (simp add: findUserByEmail_def initial_users) (simp add: test_user_def)

lemma login_request_well_formed:
  "email \<noteq> [] \<Longrightarrow> password \<noteq> [] \<Longrightarrow> emailRegex_test email \<Longrightarrow>
   well_formed_login development (login_request email password) email (JStr password)"
  by (simp add: well_formed_login_def development_def login_request_def validateOrigin_def
      is_localhost_def startsWith_def request_fields_def validateRequest_def delete_key_def)

lemma register_request_well_formed:
  "truthy (Some name) \<Longrightarrow> email \<noteq> [] \<Longrightarrow> truthy (Some password) \<Longrightarrow>
   length_lt8 password = Some False \<Longrightarrow> emailRegex_test email \<Longrightarrow>
   well_formed_register development (register_request name email password) name email password"
  by (simp add: well_formed_register_def development_def register_request_def validateOrigin_def
      is_localhost_def startsWith_def request_fields_def validateRequest_def delete_key_def)

lemma regex_examples:
  "emailRegex_test ''Test@Example.com''" "emailRegex_test ''test@example.com''"
  "emailRegex_test ''nobody@example.com''"
  by (simp_all add: emailRegex_test_def plain_char_def is_js_space_def)

lemma lower_examples:
  "toLowerCase ''Test@Example.com'' = ''test@example.com''"
  "toLowerCase ''test@example.com'' = ''test@example.com''"
  "toLowerCase ''nobody@example.com'' = ''nobody@example.com''"
  by (simp_all add: toLowerCase_def char_toLowerCase_def char_of_eq_iff)

lemma normal_examples:
  "js_trim (toLowerCase ''Test@Example.com'') = ''test@example.com''"
  "js_trim (toLowerCase ''test@example.com'') = ''test@example.com''"
  "js_trim (toLowerCase ''nobody@example.com'') = ''nobody@example.com''"
  using normalized_email [OF regex_examples(1)] normalized_email [OF regex_examples(2)]
    normalized_email [OF regex_examples(3)]
  by (simp_all add: lower_examples)

section \<open>Login\<close>

text \<open>
  Claim C5. Two login requests that pass the checks before the store, one with an email
  that no account has, one with the email of an account and a password that is not
  \<open>===\<close> to the stored one, get the same response: status 401 and the body
  \<open>{ error: 'Invalid email or password' }\<close>.
\<close>

theorem login_failures_alike:
  assumes "well_formed_login e r1 email1 password1"
    and "well_formed_login e r2 email2 password2"
    and "findUserByEmail st1 (js_trim (toLowerCase email1)) = None"
    and "findUserByEmail st2 (js_trim (toLowerCase email2)) = Some u"
    and "\<not> strict_eq (user_password u) password2"
  shows "fst (login_POST e st1 fr1 r1) = fst (login_POST e st2 fr2 r2)
       \<and> status (fst (login_POST e st1 fr1 r1)) = 401
       \<and> payload (fst (login_POST e st1 fr1 r1)) = JObj [(''error'', JStr ''Invalid email or password'')]"
proof -
  from assms(1) have a: "email1 \<noteq> []" "truthy (Some password1)" "emailRegex_test email1"
    by (simp_all add: well_formed_login_def)
  from assms(2) have b: "email2 \<noteq> []" "truthy (Some password2)" "emailRegex_test email2"
    by (simp_all add: well_formed_login_def)
  have one: "fst (login_POST e st1 fr1 r1) = error_response 401 ''Invalid email or password''"
    using login_credentials_string [OF a, of st1 fr1] assms(3)
    by (simp add: login_POST_well_formed [OF assms(1)])
  have two: "fst (login_POST e st2 fr2 r2) = error_response 401 ''Invalid email or password''"
    using login_credentials_string [OF b, of st2 fr2] assms(4,5)
    by (simp add: login_POST_well_formed [OF assms(2)])
  from one two show ?thesis by (simp add: error_response_def)
qed

theorem login_failures_alike_witness:
  "fst (login_POST development (initial_store (draw ''0'')) (draw ''1'')
          (login_request ''nobody@example.com'' ''wrongpass''))
   = fst (login_POST development (initial_store (draw ''0'')) (draw ''2'')
          (login_request ''test@example.com'' ''wrongpass''))
   \<and> status (fst (login_POST development (initial_store (draw ''0'')) (draw ''1'')
          (login_request ''nobody@example.com'' ''wrongpass''))) = 401
   \<and> payload (fst (login_POST development (initial_store (draw ''0'')) (draw ''1'')
          (login_request ''nobody@example.com'' ''wrongpass'')))
       = JObj [(''error'', JStr ''Invalid email or password'')]"
proof -
  have one: "well_formed_login development (login_request ''nobody@example.com'' ''wrongpass'')
               ''nobody@example.com'' (JStr ''wrongpass'')"
    by (rule login_request_well_formed) (simp_all add: regex_examples)
  have two: "well_formed_login development (login_request ''test@example.com'' ''wrongpass'')
               ''test@example.com'' (JStr ''wrongpass'')"
    by (rule login_request_well_formed) (simp_all add: regex_examples)
  have absent: "findUserByEmail (initial_store (draw ''0''))
                  (js_trim (toLowerCase ''nobody@example.com'')) = None"
    by (simp add: normal_examples find_nobody)
  have present: "findUserByEmail (initial_store (draw ''0''))
                  (js_trim (toLowerCase ''test@example.com'')) = Some test_user"
    by (simp add: normal_examples find_test_user)
  have differs: "\<not> strict_eq (user_password test_user) (JStr ''wrongpass'')"
    by (simp add: test_user_def)
  show ?thesis
    by (rule login_failures_alike [OF one two absent present differs])
qed

section \<open>Registration\<close>

lemma char_toLowerCase_idem: "char_toLowerCase (char_toLowerCase c) = char_toLowerCase c"
proof (cases "(65 \<le> (of_char c :: nat) \<and> (of_char c :: nat) \<le> 90)
    \<or> (192 \<le> (of_char c :: nat) \<and> (of_char c :: nat) \<le> 222 \<and> (of_char c :: nat) \<noteq> 215)")
  case False
  then have "char_toLowerCase c = c"
    unfolding char_toLowerCase_def Let_def by (rule if_not_P)
  then show ?thesis by simp
next
  case True
  then have low: "char_toLowerCase c = char_of ((of_char c :: nat) + 32)"
    unfolding char_toLowerCase_def Let_def by (rule if_P)
  have "(of_char c :: nat) + 32 < 256" using True by arith
  then have val: "(of_char (char_toLowerCase c) :: nat) = of_char c + 32"
    unfolding low by simp
  have "\<not> ((65 \<le> (of_char (char_toLowerCase c) :: nat) \<and> (of_char (char_toLowerCase c) :: nat) \<le> 90)
    \<or> (192 \<le> (of_char (char_toLowerCase c) :: nat) \<and> (of_char (char_toLowerCase c) :: nat) \<le> 222
        \<and> (of_char (char_toLowerCase c) :: nat) \<noteq> 215))"
    unfolding val using True by arith
  then show ?thesis
    unfolding char_toLowerCase_def [of "char_toLowerCase c"] Let_def by (rule if_not_P)
qed

lemma toLowerCase_idem: "toLowerCase (toLowerCase s) = toLowerCase s"
  by (simp add: toLowerCase_def char_toLowerCase_idem)

lemma register_store_unique:
  assumes inv: "emails_unique st" and test: "\<And>e. email = JStr e \<Longrightarrow> emailRegex_test e"
  shows "emails_unique (snd (register_store st fr name email password))"
proof (cases "users (snd (register_store st fr name email password)) = users st")
  case True
  with inv show ?thesis by (simp add: emails_unique_def)
next
  case False
  then obtain n e where email: "email = JStr e"
    and absent: "findUserByEmail st (js_trim (toLowerCase e)) = None"
    and run: "register_store st fr name email password
        = (register_success (fst (createUser st (js_trim n) (js_trim (toLowerCase e)) password fr)),
           snd (createUser st (js_trim n) (js_trim (toLowerCase e)) password fr))"
    by (cases email; cases name)
       (auto simp add: register_store_def case_prod_unfold Let_def split: option.splits)
  have norm: "js_trim (toLowerCase e) = toLowerCase e"
    using test [OF email] by (rule normalized_email)
  have users: "users (snd (register_store st fr name email password))
      = users st @ [\<lparr>user_id = fresh_user_id fr, user_name = js_trim n,
          user_email = toLowerCase e, user_password = password,
          user_createdAt = fresh_user_time fr\<rparr>]"
    by (simp add: run createUser_def Let_def logAuthEvent_def norm)
  from absent have new: "toLowerCase e \<notin> user_email ` set (users st)"
    by (auto simp add: findUserByEmail_def find_None_iff norm)
  from inv new show ?thesis
    by (simp add: emails_unique_def users toLowerCase_idem)
qed

lemma register_fields_unique:
  assumes inv: "emails_unique st"
  shows "emails_unique (snd (register_fields st fr name email password))"
proof (cases "snd (register_fields st fr name email password) = st")
  case True
  with inv show ?thesis by simp
next
  case False
  then have "\<exists>nv ev pv printed. register_fields st fr name email password = register_store st fr nv ev pv
      \<and> js_String ev = Some printed \<and> emailRegex_test printed"
    by (cases name; cases email; cases password)
       (auto simp add: register_fields_def split: if_splits option.splits)
  then obtain nv ev pv printed
    where stored: "register_fields st fr name email password = register_store st fr nv ev pv"
      and test: "js_String ev = Some printed" "emailRegex_test printed"
    by blast
  have "\<And>e. ev = JStr e \<Longrightarrow> emailRegex_test e" using test by auto
  with inv show ?thesis unfolding stored by (rule register_store_unique)
qed

lemma register_POST_unique:
  assumes "emails_unique st"
  shows "emails_unique (snd (register_POST e st fr r))"
  using assms register_fields_unique [OF assms]
  by (auto simp add: register_POST_def split: option.splits validation.splits)

lemma initial_store_unique: "emails_unique (initial_store fr)"
  by (simp add: emails_unique_def initial_store_def createUser_def empty_store_def
      logAuthEvent_def Let_def toLowerCase_def char_toLowerCase_def)

lemma register_fields_reached:
  assumes reach: "status (fst (register_fields st fr name email password)) = 409
      \<or> status (fst (register_fields st fr name email password)) = 201"
  shows "\<exists>nv em pv. name = Some nv \<and> email = Some (JStr em) \<and> password = Some pv
      \<and> truthy (Some nv) \<and> em \<noteq> [] \<and> truthy (Some pv)
      \<and> length_lt8 pv = Some False \<and> emailRegex_test em"
proof -
  have all: "\<not> (\<not> truthy name \<or> \<not> truthy email \<or> \<not> truthy password)"
  proof
    assume "\<not> truthy name \<or> \<not> truthy email \<or> \<not> truthy password"
    then have "register_fields st fr name email password
        = (error_response 400 ''Missing required fields: name, email, password'', st)"
      by (simp add: register_fields_def)
    with reach show False by (simp add: error_response_def)
  qed
  then obtain nv ev pv where some: "name = Some nv" "email = Some ev" "password = Some pv"
    by (cases name; cases email; cases password) auto
  from all some have truthy: "truthy (Some nv)" "truthy (Some ev)" "truthy (Some pv)" by simp_all
  have unfolded: "register_fields st fr name email password =
      (case length_lt8 pv of
         None \<Rightarrow> (error_response 500 ''Internal server error'', st)
       | Some short \<Rightarrow>
           (if short
            then (error_response 400 ''Password must be at least 8 characters long'', st)
            else case js_String ev of
              None \<Rightarrow> (error_response 500 ''Internal server error'', st)
            | Some printed \<Rightarrow>
                (if \<not> emailRegex_test printed
                 then (error_response 400 ''Invalid email format'', st)
                 else register_store st fr nv ev pv)))"
    using truthy by (simp add: register_fields_def some)
  from reach have long: "length_lt8 pv = Some False"
    unfolding unfolded by (cases "length_lt8 pv") (auto simp add: error_response_def split: if_splits)
  from reach long obtain printed where printed: "js_String ev = Some printed" "emailRegex_test printed"
    and store: "status (fst (register_store st fr nv ev pv)) = 409
      \<or> status (fst (register_store st fr nv ev pv)) = 201"
    unfolding unfolded
    by (cases "js_String ev") (auto simp add: error_response_def split: if_splits)
  from store obtain em where ev: "ev = JStr em"
    by (cases ev) (auto simp add: register_store_def error_response_def)
  with printed truthy have "emailRegex_test em" "em \<noteq> []" by auto
  with some truthy long ev show ?thesis by simp
qed

lemma register_store_reached:
  assumes "status (fst (register_POST e st fr r)) = 409 \<or> status (fst (register_POST e st fr r)) = 201"
  shows "\<exists>name email password. well_formed_register e r name email password"
proof -
  from assms obtain rawBody data where body: "json_body r = Some rawBody"
    and valid: "validateRequest rawBody = Valid data" and origin: "validateOrigin e r"
    and fields: "register_POST e st fr r
        = register_fields st fr (field data ''name'') (field data ''email'') (field data ''password'')"
    by (auto simp add: register_POST_def error_response_def
        split: if_splits option.splits validation.splits)
  from assms have "status (fst (register_fields st fr (field data ''name'') (field data ''email'')
        (field data ''password''))) = 409
      \<or> status (fst (register_fields st fr (field data ''name'') (field data ''email'')
        (field data ''password''))) = 201"
    unfolding fields .
  then obtain nv em pv where "field data ''name'' = Some nv" "field data ''email'' = Some (JStr em)"
    "field data ''password'' = Some pv" "truthy (Some nv)" "em \<noteq> []" "truthy (Some pv)"
    "length_lt8 pv = Some False" "emailRegex_test em"
    using register_fields_reached by blast
  with origin body valid have "well_formed_register e r nv em pv"
    by (simp add: well_formed_register_def request_fields_def)
  then show ?thesis by blast
qed

text \<open>
  Claim C6, as amended. The register route looks the account up under the lower-cased,
  trimmed email: a request that passes the checks before the store (whatever truthy
  values it has for \<open>name\<close> and \<open>password\<close>) and whose email, lower-cased, is the
  email of a stored account gets 409, and the store is unchanged. Whatever the request,
  the route keeps the stored emails lower-case and distinct. The Convex mutation
  \<open>register\<close> compares the email as it is given: it refuses exactly when some user
  document has the very same string.
\<close>

theorem register_conflict:
  "(well_formed_register e r name email password \<and> u \<in> set (users st)
      \<and> user_email u = toLowerCase email
      \<longrightarrow> register_POST e st fr r
            = (error_response 409 ''User with this email already exists'', st))
   \<and> (register db name' email' password' new_id now = Inl ''User with this email already exists''
        \<longleftrightarrow> email' \<in> cu_email ` set (db_users db))
   \<and> (emails_unique st \<longrightarrow> emails_unique (snd (register_POST e st fr r)))"
proof -
  have route: "register_POST e st fr r
            = (error_response 409 ''User with this email already exists'', st)"
    if wf: "well_formed_register e r name email password"
      and u: "u \<in> set (users st)" "user_email u = toLowerCase email"
  proof -
    from wf have ok: "truthy (Some name)" "email \<noteq> []" "truthy (Some password)"
      "length_lt8 password = Some False" "emailRegex_test email"
      by (simp_all add: well_formed_register_def)
    from u have "findUserByEmail st (toLowerCase email) \<noteq> None"
      by (auto simp add: findUserByEmail_def find_None_iff)
    then obtain x where "findUserByEmail st (js_trim (toLowerCase email)) = Some x"
      using normalized_email [OF ok(5)] by auto
    with ok show ?thesis
      by (simp add: register_POST_well_formed [OF wf] register_fields_def register_store_def)
  qed
  have convex: "register db name' email' password' new_id now = Inl ''User with this email already exists''
        \<longleftrightarrow> email' \<in> cu_email ` set (db_users db)"
  proof (cases "find (\<lambda>u. cu_email u = email') (db_users db)")
    case None
    then have "email' \<notin> cu_email ` set (db_users db)" by (auto simp add: find_None_iff)
    with None show ?thesis by (simp add: register_def)
  next
    case (Some x)
    then have "cu_email x = email'" "x \<in> set (db_users db)"
      using find_Some_in [of "\<lambda>u. cu_email u = email'" "db_users db" x] by auto
    with Some show ?thesis by (auto simp add: register_def)
  qed
  from route convex register_POST_unique show ?thesis by blast
qed

theorem register_conflict_witness:
  "register_POST development (initial_store (draw ''0'')) (draw ''1'')
     (register_request (JStr ''Another User'') ''Test@Example.com'' (JStr ''password1''))
   = (error_response 409 ''User with this email already exists'', initial_store (draw ''0''))
   \<and> register_POST development (initial_store (draw ''0'')) (draw ''1'')
     (register_request (JNum ''7'') ''Test@Example.com'' (JNum ''12345678''))
   = (error_response 409 ''User with this email already exists'', initial_store (draw ''0''))
   \<and> status (fst (register_POST development (initial_store (draw ''0'')) (draw ''1'')
        (register_request (JStr ''Another User'') ''Nobody@Example.com'' (JNum ''12345678''))))
     = 201
   \<and> emails_unique (snd (register_POST development (initial_store (draw ''0'')) (draw ''1'')
        (register_request (JStr ''Another User'') ''Nobody@Example.com'' (JNum ''12345678''))))"
proof -
  have wf: "well_formed_register development
              (register_request (JStr ''Another User'') ''Test@Example.com'' (JStr ''password1''))
              (JStr ''Another User'') ''Test@Example.com'' (JStr ''password1'')"
    by (rule register_request_well_formed) (simp_all add: regex_examples)
  have wf_number: "well_formed_register development
              (register_request (JNum ''7'') ''Test@Example.com'' (JNum ''12345678''))
              (JNum ''7'') ''Test@Example.com'' (JNum ''12345678'')"
    by (rule register_request_well_formed) (simp_all add: regex_examples)
  have member: "test_user \<in> set (users (initial_store (draw ''0'')))"
    by (simp add: initial_users)
  have same: "user_email test_user = toLowerCase ''Test@Example.com''"
    by (simp add: lower_examples) (simp add: test_user_def)
  have conflict: "register_POST development (initial_store (draw ''0'')) (draw ''1'')
     (register_request (JStr ''Another User'') ''Test@Example.com'' (JStr ''password1''))
   = (error_response 409 ''User with this email already exists'', initial_store (draw ''0''))"
    using wf member same
      register_conflict [of development
        "register_request (JStr ''Another User'') ''Test@Example.com'' (JStr ''password1'')"
        "JStr ''Another User''" "''Test@Example.com''" "JStr ''password1''" test_user
        "initial_store (draw ''0'')" "draw ''1''"]
    by blast
  have conflict_number: "register_POST development (initial_store (draw ''0'')) (draw ''1'')
     (register_request (JNum ''7'') ''Test@Example.com'' (JNum ''12345678''))
   = (error_response 409 ''User with this email already exists'', initial_store (draw ''0''))"
    using wf_number member same
      register_conflict [of development
        "register_request (JNum ''7'') ''Test@Example.com'' (JNum ''12345678'')"
        "JNum ''7''" "''Test@Example.com''" "JNum ''12345678''" test_user
        "initial_store (draw ''0'')" "draw ''1''"]
    by blast
  have regex: "emailRegex_test ''Nobody@Example.com''"
    by (simp add: emailRegex_test_def plain_char_def is_js_space_def)
  have lower: "toLowerCase ''Nobody@Example.com'' = ''nobody@example.com''"
    by (simp add: toLowerCase_def char_toLowerCase_def char_of_eq_iff)
  have wf2: "well_formed_register development
              (register_request (JStr ''Another User'') ''Nobody@Example.com'' (JNum ''12345678''))
              (JStr ''Another User'') ''Nobody@Example.com'' (JNum ''12345678'')"
    by (rule register_request_well_formed) (simp_all add: regex)
  have normal: "js_trim (toLowerCase ''Nobody@Example.com'') = ''nobody@example.com''"
    using normalized_email [OF regex] by (simp add: lower)
  have created: "status (fst (register_POST development (initial_store (draw ''0'')) (draw ''1'')
        (register_request (JStr ''Another User'') ''Nobody@Example.com'' (JNum ''12345678''))))
     = 201"
    using regex
    by (simp add: register_POST_well_formed [OF wf2] register_fields_def register_store_def
        normal find_nobody case_prod_unfold Let_def register_success_def)
  have kept: "emails_unique (snd (register_POST development (initial_store (draw ''0'')) (draw ''1'')
        (register_request (JStr ''Another User'') ''Nobody@Example.com'' (JNum ''12345678''))))"
    using initial_store_unique [of "draw ''0''"]
      register_conflict [of development
        "register_request (JStr ''Another User'') ''Nobody@Example.com'' (JNum ''12345678'')"
        "JStr ''Another User''" "''Nobody@Example.com''" "JNum ''12345678''" test_user
        "initial_store (draw ''0'')" "draw ''1''"]
    by blast
  from conflict conflict_number created kept show ?thesis by simp
qed

text \<open>
  The claim fails for the Convex mutation: with \<open>test@example.com\<close> stored,
  \<open>Test@Example.com\<close> is registered as a second user.
\<close>

theorem register_case_sensitive:
  "register convex_test_db ''Another User'' ''Test@Example.com'' ''password1'' ''u2'' 1000
   = Inr (''u2'',
       \<lparr>db_users =
          [\<lparr>cu_id = ''u1'', cu_name = ''Test User'', cu_email = ''test@example.com'',
            cu_emailVerificationTime = None\<rparr>,
           \<lparr>cu_id = ''u2'', cu_name = ''Another User'', cu_email = ''Test@Example.com'',
            cu_emailVerificationTime = Some 1000\<rparr>],
        db_profiles =
          [\<lparr>cp_userId = ''u2'', cp_displayName = Some ''Another User'',
            cp_createdAt = 1000, cp_updatedAt = 1000\<rparr>],
        db_authLogs =
          [\<lparr>cl_action = ''user_registered'', cl_userId = Some ''u2'',
            cl_email = Some ''Test@Example.com'', cl_success = True, cl_error = None,
            cl_metadata = None, cl_timestamp = 1000\<rparr>]\<rparr>)
   \<and> toLowerCase ''Test@Example.com'' = ''test@example.com''"
  by (simp add: register_def convex_test_db_def lower_examples)

section \<open>Credentials\<close>

text \<open>
  Claim C1, as amended. \<open>MockAuthStore.authenticateUser\<close>, which the login route calls,
  returns an account exactly when the first stored account with the supplied email has
  the supplied password (\<open>===\<close>, which for two strings is equality); so a login request that passes the checks before the store gets
  the success response of that account when its password is the stored one, and otherwise
  401 with \<open>Invalid email or password\<close>. \<open>authenticateUser\<close> of
  \<open>convex/internal.ts\<close> returns the first user document with the supplied email whenever
  there is one: its result does not depend on the password.
\<close>

theorem authenticateUser_iff:
  "(fst (authenticateUser st email password fr) = Some u
      \<longleftrightarrow> findUserByEmail st email = Some u \<and> strict_eq (user_password u) password)
   \<and> (strict_eq (JStr stored) (JStr supplied) \<longleftrightarrow> stored = supplied)
   \<and> (well_formed_login e r address password \<longrightarrow>
        fst (login_POST e st fr r) =
          (case findUserByEmail st (js_trim (toLowerCase address)) of
             None \<Rightarrow> error_response 401 ''Invalid email or password''
           | Some a \<Rightarrow> if strict_eq (user_password a) password then login_success a
                       else error_response 401 ''Invalid email or password''))
   \<and> (internal_authenticateUser db email secret \<noteq> None
        \<longleftrightarrow> email \<in> cu_email ` set (db_users db))
   \<and> internal_authenticateUser db email secret = internal_authenticateUser db email other"
proof -
  have mock: "fst (authenticateUser st email password fr) = Some u
      \<longleftrightarrow> findUserByEmail st email = Some u \<and> strict_eq (user_password u) password"
    by (auto simp add: authenticateUser_def login_failed_def split: option.splits)
  have route: "fst (login_POST e st fr r) =
          (case findUserByEmail st (js_trim (toLowerCase address)) of
             None \<Rightarrow> error_response 401 ''Invalid email or password''
           | Some a \<Rightarrow> if strict_eq (user_password a) password then login_success a
                       else error_response 401 ''Invalid email or password'')"
    if wf: "well_formed_login e r address password"
  proof -
    from wf have "address \<noteq> []" "truthy (Some password)" "emailRegex_test address"
      by (simp_all add: well_formed_login_def)
    then show ?thesis
      using login_credentials_string [of address password st fr]
      by (auto simp add: login_POST_well_formed [OF wf] split: option.splits)
  qed
  have strings: "strict_eq (JStr stored) (JStr supplied) \<longleftrightarrow> stored = supplied"
    by simp
  have convex: "internal_authenticateUser db email secret \<noteq> None
      \<longleftrightarrow> email \<in> cu_email ` set (db_users db)"
    by (auto simp add: internal_authenticateUser_def find_None_iff)
  have blind: "internal_authenticateUser db email secret = internal_authenticateUser db email other"
    by (simp add: internal_authenticateUser_def)
  from mock strings route convex blind show ?thesis by blast
qed

theorem authenticateUser_iff_witness:
  "fst (authenticateUser (initial_store (draw ''0'')) ''test@example.com''
          (JStr ''testpass123'') (draw ''1''))
     = Some test_user
   \<and> fst (login_POST development (initial_store (draw ''0'')) (draw ''1'')
            (login_request ''Test@Example.com'' ''testpass123''))
     = login_success test_user
   \<and> internal_authenticateUser convex_test_db ''test@example.com'' ''testpass123'' \<noteq> None"
proof -
  have wf: "well_formed_login development (login_request ''Test@Example.com'' ''testpass123'')
              ''Test@Example.com'' (JStr ''testpass123'')"
    by (rule login_request_well_formed) (simp_all add: regex_examples)
  have stored: "user_password test_user = JStr ''testpass123''"
    by (simp add: test_user_def)
  have member: "''test@example.com'' \<in> cu_email ` set (db_users convex_test_db)"
    by (simp add: convex_test_db_def)
  show ?thesis
    using authenticateUser_iff [of "initial_store (draw ''0'')" "''test@example.com''"
        "JStr ''testpass123''" "draw ''1''" test_user "''testpass123''" "''testpass123''"
        development "login_request ''Test@Example.com'' ''testpass123''" "''Test@Example.com''"
        convex_test_db "''testpass123''" "''testpass123''"]
      wf stored member
    by (simp add: find_test_user normal_examples)
qed

text \<open>
  The claim fails for the Convex query: the stored user is returned for
  \<open>testpass123\<close> and for \<open>wrongpass\<close> alike.
\<close>

theorem internal_authenticateUser_any_password:
  "internal_authenticateUser convex_test_db ''test@example.com'' ''testpass123''
     = Some \<lparr>cu_id = ''u1'', cu_name = ''Test User'', cu_email = ''test@example.com'',
              cu_emailVerificationTime = None\<rparr>
   \<and> internal_authenticateUser convex_test_db ''test@example.com'' ''wrongpass''
     = Some \<lparr>cu_id = ''u1'', cu_name = ''Test User'', cu_email = ''test@example.com'',
              cu_emailVerificationTime = None\<rparr>"
  by (simp add: internal_authenticateUser_def convex_test_db_def)

section \<open>Reading the authentication log\<close>

lemma subseq_take: "subseq (take n xs) xs"
  by (metis append_take_drop_id subseq_rev_drop_many subseq_order.order_refl)

lemma store_after_login_logs:
  "authLogs store_after_login =
     [\<lparr>log_id = ''log_0'', log_action = ''user_registration'', log_userId = ''user_0'',
       log_email = ''test@example.com'', log_success = True, log_timestamp = ''time_0''\<rparr>,
      \<lparr>log_id = ''log_1'', log_action = ''user_login'', log_userId = ''user_0'',
       log_email = ''test@example.com'', log_success = True, log_timestamp = ''time_1''\<rparr>]"
  by (simp add: store_after_login_def authenticateUser_def find_test_user)
     (simp add: test_user_def logAuthEvent_def initial_store_def createUser_def empty_store_def
        draw_def Let_def)

text \<open>
  Claim C8, as amended. \<open>getMyAuthLogs\<close> of the Convex module that reads the session
  (\<open>userId\<close> is what \<open>auth.getUserId\<close> returns) gives entries of the current account
  only, at most 50 of them, newest first: the result is the beginning of that account's
  entries in reverse insertion order. The demo
  module's \<open>getMyAuthLogs\<close> returns the empty list. \<open>MockAuthStore.getAuthLogs\<close> with a
  non-empty account identifier returns all the entries of that account, however many, in
  insertion order.
\<close>

theorem auth_logs_query:
  "set (getMyAuthLogs db userId) \<subseteq> {l \<in> set (db_authLogs db). cl_userId l = userId}
   \<and> length (getMyAuthLogs db userId) \<le> 50
   \<and> subseq (getMyAuthLogs db userId) (rev (db_authLogs db))
   \<and> prefix (getMyAuthLogs db userId)
        (rev (filter (\<lambda>l. cl_userId l = userId) (db_authLogs db)))
   \<and> getMyAuthLogs_demo db = []
   \<and> (account \<noteq> [] \<longrightarrow>
      set (getAuthLogs st (Some account)) = {l \<in> set (authLogs st). log_userId l = account}
      \<and> subseq (getAuthLogs st (Some account)) (authLogs st))"
proof -
  let ?mine = "filter (\<lambda>l. cl_userId l = userId) (db_authLogs db)"
  have "getMyAuthLogs db userId = [] \<or> getMyAuthLogs db userId = take 50 (rev ?mine)"
    by (auto simp add: getMyAuthLogs_def split: option.splits)
  then have convex: "set (getMyAuthLogs db userId) \<subseteq> {l \<in> set (db_authLogs db). cl_userId l = userId}
      \<and> length (getMyAuthLogs db userId) \<le> 50
      \<and> subseq (getMyAuthLogs db userId) (rev (db_authLogs db))
      \<and> prefix (getMyAuthLogs db userId) (rev ?mine)"
  proof
    assume "getMyAuthLogs db userId = []"
    then show ?thesis by simp
  next
    assume eq: "getMyAuthLogs db userId = take 50 (rev ?mine)"
    have "set (take 50 (rev ?mine)) \<subseteq> set (rev ?mine)" by (rule set_take_subset)
    then have only: "set (take 50 (rev ?mine)) \<subseteq> {l \<in> set (db_authLogs db). cl_userId l = userId}"
      by auto
    have "subseq (rev ?mine) (rev (db_authLogs db))"
      by (simp add: rev_filter)
    then have order: "subseq (take 50 (rev ?mine)) (rev (db_authLogs db))"
      using subseq_take [of 50 "rev ?mine"] by (rule subseq_order.order_trans [rotated])
    have newest: "prefix (take 50 (rev ?mine)) (rev ?mine)" by (rule take_is_prefix)
    from only order newest show ?thesis unfolding eq by simp
  qed
  have demo: "getMyAuthLogs_demo db = []" by (simp add: getMyAuthLogs_demo_def)
  have mock: "set (getAuthLogs st (Some account)) = {l \<in> set (authLogs st). log_userId l = account}
      \<and> subseq (getAuthLogs st (Some account)) (authLogs st)"
    if "account \<noteq> []"
    using that by (auto simp add: getAuthLogs_def)
  from convex demo mock show ?thesis by blast
qed

theorem auth_logs_query_witness:
  "set (getMyAuthLogs convex_logs_db (Some ''u1''))
      \<subseteq> {l \<in> set (db_authLogs convex_logs_db). cl_userId l = Some ''u1''}
   \<and> length (getMyAuthLogs convex_logs_db (Some ''u1'')) \<le> 50
   \<and> subseq (getMyAuthLogs convex_logs_db (Some ''u1'')) (rev (db_authLogs convex_logs_db))
   \<and> getMyAuthLogs convex_logs_db (Some ''u1'')
       = [convex_log_entry ''user_login'' ''u1'' 3000, convex_log_entry ''user_registered'' ''u1'' 1000]
   \<and> set (getAuthLogs store_after_login (Some ''user_0''))
       = {l \<in> set (authLogs store_after_login). log_userId l = ''user_0''}
   \<and> subseq (getAuthLogs store_after_login (Some ''user_0'')) (authLogs store_after_login)"
proof -
  have shown: "getMyAuthLogs convex_logs_db (Some ''u1'')
       = [convex_log_entry ''user_login'' ''u1'' 3000, convex_log_entry ''user_registered'' ''u1'' 1000]"
    by (simp add: getMyAuthLogs_def convex_logs_db_def convex_log_entry_def)
  show ?thesis
    using auth_logs_query [of convex_logs_db "Some ''u1''" "''user_0''" store_after_login] shown
    by simp
qed

text \<open>
  The claim fails for the mock store: after the registration and a login of the test user,
  \<open>getAuthLogs\<close> lists the registration before the login, the oldest entry first.
\<close>

theorem getAuthLogs_oldest_first:
  "getAuthLogs store_after_login (Some ''user_0'') =
     [\<lparr>log_id = ''log_0'', log_action = ''user_registration'', log_userId = ''user_0'',
       log_email = ''test@example.com'', log_success = True, log_timestamp = ''time_0''\<rparr>,
      \<lparr>log_id = ''log_1'', log_action = ''user_login'', log_userId = ''user_0'',
       log_email = ''test@example.com'', log_success = True, log_timestamp = ''time_1''\<rparr>]
   \<and> authLogs store_after_login = getAuthLogs store_after_login (Some ''user_0'')
   \<and> \<not> subseq (getAuthLogs store_after_login (Some ''user_0'')) (rev (authLogs store_after_login))"
  by (simp add: getAuthLogs_def store_after_login_logs)

section \<open>Rate limiting\<close>

lemma history_update:
  "history (L\<lparr>requests := (requests L)(i \<mapsto> ts)\<rparr>) i = ts"
  by (simp add: history_def)

lemma isAllowed_admits:
  assumes "\<forall>t \<in> set (history L i). now - w < t" and "int (length (history L i)) < m"
  shows "isAllowed L now i w m = (True, L\<lparr>requests := (requests L)(i \<mapsto> history L i @ [now])\<rparr>)"
proof -
  have "filter (\<lambda>t. now - w < t) (history L i) = history L i"
    using assms(1) by (simp add: filter_id_conv)
  with assms(2) show ?thesis by (simp add: isAllowed_def Let_def)
qed

lemma isAllowed_refuses:
  assumes "\<forall>t \<in> set (history L i). now - w < t" and "m \<le> int (length (history L i))"
  shows "fst (isAllowed L now i w m) = False"
proof -
  have "filter (\<lambda>t. now - w < t) (history L i) = history L i"
    using assms(1) by (simp add: filter_id_conv)
  with assms(2) show ?thesis by (simp add: isAllowed_def Let_def)
qed

lemma isAllowed_calls_admitted:
  assumes "\<forall>t \<in> set (history L i @ ts). T - 900000 < t" and "\<forall>t \<in> set ts. t \<le> T"
    and "length (history L i) + length ts \<le> 10"
  shows "fst (isAllowed_calls L i ts) = replicate (length ts) True
       \<and> history (snd (isAllowed_calls L i ts)) i = history L i @ ts"
  using assms
proof (induction ts arbitrary: L)
  case Nil
  then show ?case by simp
next
  case (Cons now later)
  let ?L = "L\<lparr>requests := (requests L)(i \<mapsto> history L i @ [now])\<rparr>"
  have inside: "\<forall>t \<in> set (history L i). now - 900000 < t"
  proof
    fix t assume "t \<in> set (history L i)"
    then have "T - 900000 < t" using Cons.prems(1) by simp
    moreover have "now \<le> T" using Cons.prems(2) by simp
    ultimately show "now - 900000 < t" by linarith
  qed
  have room: "int (length (history L i)) < 10" using Cons.prems(3) by simp
  have step: "isAllowed L now i 900000 10 = (True, ?L)"
    using isAllowed_admits [OF inside room] .
  have h: "history ?L i = history L i @ [now]" by (rule history_update)
  have "fst (isAllowed_calls ?L i later) = replicate (length later) True
       \<and> history (snd (isAllowed_calls ?L i later)) i = history ?L i @ later"
    using Cons.prems by (intro Cons.IH) (auto simp add: h)
  then show ?case by (simp add: step h case_prod_unfold)
qed

lemma isAllowed_calls_append:
  "isAllowed_calls L i (xs @ ys) =
     (fst (isAllowed_calls L i xs) @ fst (isAllowed_calls (snd (isAllowed_calls L i xs)) i ys),
      snd (isAllowed_calls (snd (isAllowed_calls L i xs)) i ys))"
  by (induction xs arbitrary: L) (simp_all add: case_prod_unfold Let_def)

lemma never_429_login: "status (fst (login_POST e st fr r)) \<noteq> 429"
  by (auto simp add: login_POST_def login_credentials_def login_store_def rateLimit_def
      error_response_def login_success_def authenticateUser_def login_failed_def
      split: option.splits validation.splits json.splits prod.splits)

lemma never_429_register: "status (fst (register_POST e st fr r)) \<noteq> 429"
  by (auto simp add: register_POST_def register_fields_def register_store_def rateLimit_def
      error_response_def register_success_def createUser_def Let_def
      split: option.splits validation.splits json.splits prod.splits if_splits)

lemma wrong_password_401:
  assumes "users st = [test_user]"
  shows "login_POST development st fr (login_request ''test@example.com'' ''wrongpass'')
     = (error_response 401 ''Invalid email or password'',
        logAuthEvent st ''user_login_failed'' [] ''test@example.com'' False fr)"
proof -
  have wf: "well_formed_login development (login_request ''test@example.com'' ''wrongpass'')
              ''test@example.com'' (JStr ''wrongpass'')"
    by (rule login_request_well_formed) (simp_all add: regex_examples)
  have found: "findUserByEmail st ''test@example.com'' = Some test_user"
    using assms by (simp add: findUserByEmail_def) (simp add: test_user_def)
  have differs: "\<not> strict_eq (user_password test_user) (JStr ''wrongpass'')"
    by (simp add: test_user_def)
  show ?thesis
    using differs
    by (simp add: login_POST_well_formed [OF wf] login_credentials_def login_store_def
        regex_examples normal_examples authenticateUser_def found login_failed_def)
qed

lemma users_logAuthEvent: "users (logAuthEvent st a u m s fr) = users st"
  by (simp add: logAuthEvent_def)

text \<open>
  Claim C2, as amended. For \<open>RateLimiter.isAllowed\<close> of the security guide with
  \<open>windowMs = 900000\<close> and \<open>maxRequests = 10\<close>: starting with no recorded attempt of the
  identifier, ten calls followed by an eleventh at \<open>T\<close>, where each of the ten timestamps
  \<open>t\<close> has \<open>T - 900000 < t \<le> T\<close>, are admitted ten times and then refused; and a call made
  when every recorded attempt of the identifier is at least a window old is admitted. The
  middleware's \<open>rateLimit()\<close>, which the login and register routes call, takes no
  identifier and allows every call: neither route ever answers 429.
\<close>

theorem isAllowed_eleventh:
  "(history L i = [] \<and> length ts = 10 \<and> (\<forall>t \<in> set ts. T - 900000 < t \<and> t \<le> T)
      \<longrightarrow> fst (isAllowed_calls L i (ts @ [T])) = replicate 10 True @ [False])
   \<and> ((\<forall>t \<in> set (history L i). t \<le> now - 900000) \<longrightarrow> fst (isAllowed L now i 900000 10))
   \<and> allowed rateLimit
   \<and> status (fst (login_POST e st fr r)) \<noteq> 429
   \<and> status (fst (register_POST e st fr r)) \<noteq> 429"
proof -
  have eleventh: "fst (isAllowed_calls L i (ts @ [T])) = replicate 10 True @ [False]"
    if fresh: "history L i = []" and ten: "length ts = 10"
      and window: "\<forall>t \<in> set ts. T - 900000 < t \<and> t \<le> T"
  proof -
    let ?L = "snd (isAllowed_calls L i ts)"
    have first: "fst (isAllowed_calls L i ts) = replicate (length ts) True
        \<and> history ?L i = history L i @ ts"
      using fresh ten window by (intro isAllowed_calls_admitted) auto
    then have recorded: "history ?L i = ts" using fresh by simp
    have "fst (isAllowed ?L T i 900000 10) = False"
      using window ten by (intro isAllowed_refuses) (auto simp add: recorded)
    then have "fst (isAllowed_calls ?L i [T]) = [False]"
      by (simp add: case_prod_unfold)
    with first ten show ?thesis by (simp add: isAllowed_calls_append)
  qed
  have again: "fst (isAllowed L now i 900000 10)"
    if old: "\<forall>t \<in> set (history L i). t \<le> now - 900000"
  proof -
    have "filter (\<lambda>t. now - 900000 < t) (history L i) = []"
      using old by (auto simp add: filter_empty_conv)
    then show ?thesis by (simp add: isAllowed_def Let_def)
  qed
  have stub: "allowed rateLimit" by (simp add: rateLimit_def)
  from eleventh again stub never_429_login never_429_register show ?thesis by blast
qed

theorem isAllowed_eleventh_witness:
  "fst (isAllowed_calls empty_limiter ''203.0.113.7''
          ([0, 1000, 2000, 3000, 4000, 5000, 6000, 7000, 8000, 9000] @ [10000]))
     = replicate 10 True @ [False]
   \<and> fst (isAllowed
            (snd (isAllowed_calls empty_limiter ''203.0.113.7''
                   [0, 1000, 2000, 3000, 4000, 5000, 6000, 7000, 8000, 9000]))
            909000 ''203.0.113.7'' 900000 10)"
proof -
  have fresh: "history empty_limiter ''203.0.113.7'' = []"
    by (simp add: history_def empty_limiter_def)
  have recorded: "history (snd (isAllowed_calls empty_limiter ''203.0.113.7''
                   [0, 1000, 2000, 3000, 4000, 5000, 6000, 7000, 8000, 9000])) ''203.0.113.7''
      = [0, 1000, 2000, 3000, 4000, 5000, 6000, 7000, 8000, 9000]"
    using isAllowed_calls_admitted [of empty_limiter "''203.0.113.7''"
        "[0, 1000, 2000, 3000, 4000, 5000, 6000, 7000, 8000, 9000]" 10000] fresh
    by simp
  show ?thesis
    using isAllowed_eleventh [of empty_limiter "''203.0.113.7''"
        "[0, 1000, 2000, 3000, 4000, 5000, 6000, 7000, 8000, 9000]" 10000]
      isAllowed_eleventh [of "snd (isAllowed_calls empty_limiter ''203.0.113.7''
                   [0, 1000, 2000, 3000, 4000, 5000, 6000, 7000, 8000, 9000])" "''203.0.113.7''"
        "[]" 0 909000]
      fresh recorded
    by simp
qed

text \<open>
  The claim fails for the rate limiter the routes call: twelve login attempts in a row with
  a wrong password for the same account all get 401, the eleventh and twelfth included.
\<close>

theorem rateLimit_never_refuses:
  "allowed rateLimit
   \<and> login_statuses development (initial_store (draw ''0''))
       (map (\<lambda>n. (draw n, login_request ''test@example.com'' ''wrongpass''))
          [''a1'', ''a2'', ''a3'', ''a4'', ''b1'', ''b2'', ''b3'', ''b4'', ''c1'', ''c2'', ''c3'', ''c4''])
     = [401, 401, 401, 401, 401, 401, 401, 401, 401, 401, 401, 401]"
  by (simp add: rateLimit_def wrong_password_401 users_logAuthEvent initial_users
      error_response_def)

section \<open>Cleaning a payload\<close>

text \<open>
  The validator of the security guide leaves no dangerous property name at any depth, and
  a string reached through names that are not dangerous comes back trimmed and cut to
  1000 characters. The middleware's \<open>validateRequest\<close> has the type check and the three
  deletions only: its result has none of the three names at the top level.
\<close>

lemma sanitize_clean:
  "\<not> dangerous_in (deepSanitize v)"
  "\<not> dangerous_in_entries (sanitize_entries kvs)"
  "\<not> dangerous_in_entries (sanitize_items i xs)"
proof (induction v and kvs and i xs rule: deepSanitize_sanitize_entries_sanitize_items.induct)
  case (8 k v rest)
  then show ?case by (cases v) auto
next
  case (10 i v vs)
  then show ?case by (cases v) auto
qed simp_all

lemma validateRequest_guide_clean:
  "validateRequest_guide body = Valid d \<Longrightarrow> \<not> dangerous_in d"
  by (auto simp add: validateRequest_guide_def sanitize_clean split: if_splits)

lemma map_of_delete_key: "k \<noteq> k' \<Longrightarrow> map_of (delete_key k' kvs) k = map_of kvs k"
  by (induction kvs) (auto simp add: delete_key_def)

lemma delete_key_removes: "k \<notin> fst ` set (delete_key k kvs)"
  by (auto simp add: delete_key_def)

lemma delete_key_subset: "set (delete_key k kvs) \<subseteq> set kvs"
  by (auto simp add: delete_key_def)

lemma validateRequest_top_level:
  assumes "validateRequest body = Valid d"
  shows "\<exists>kvs. d = JObj kvs \<and> set dangerous_keys \<inter> fst ` set kvs = {}"
proof -
  let ?kvs = "delete_key ''prototype'' (delete_key ''constructor''
                (delete_key ''__proto__'' (own_entries body)))"
  from assms have d: "d = JObj ?kvs"
    by (auto simp add: validateRequest_def split: if_splits)
  have "''prototype'' \<notin> fst ` set ?kvs" by (rule delete_key_removes)
  moreover have "''constructor'' \<notin> fst ` set ?kvs"
    using delete_key_removes [of "''constructor''" "delete_key ''__proto__'' (own_entries body)"]
      delete_key_subset [of "''prototype''"] by blast
  moreover have "''__proto__'' \<notin> fst ` set ?kvs"
    using delete_key_removes [of "''__proto__''" "own_entries body"]
      delete_key_subset [of "''prototype''"] delete_key_subset [of "''constructor''"] by blast
  ultimately show ?thesis using d by (auto simp add: dangerous_keys_def)
qed

lemma sanitize_entries_lookup:
  "k \<notin> set dangerous_keys \<Longrightarrow>
   map_of (sanitize_entries kvs) k =
     map_option (\<lambda>v. case v of JStr s \<Rightarrow> JStr (take 1000 (js_trim s)) | _ \<Rightarrow> deepSanitize v)
       (map_of kvs k)"
  by (induction kvs) (auto split: json.splits)

lemma sanitize_items_lookup:
  "k \<notin> set dangerous_keys \<Longrightarrow>
   map_of (sanitize_items i xs) k =
     map_option (\<lambda>v. case v of JStr s \<Rightarrow> JStr (take 1000 (js_trim s)) | _ \<Rightarrow> deepSanitize v)
       (map_of (index_entries i xs) k)"
  by (induction xs arbitrary: i) (auto split: json.splits)

lemma own_entries_deepSanitize:
  "k \<notin> set dangerous_keys \<Longrightarrow>
   map_of (own_entries (deepSanitize v)) k =
     map_option (\<lambda>v. case v of JStr s \<Rightarrow> JStr (take 1000 (js_trim s)) | _ \<Rightarrow> deepSanitize v)
       (map_of (own_entries v) k)"
  by (cases v) (simp_all add: sanitize_entries_lookup sanitize_items_lookup)

lemma deepSanitize_path:
  assumes "p \<noteq> []" and "set p \<inter> set dangerous_keys = {}"
    and "at_path v p = Some (JStr s)"
  shows "at_path (deepSanitize v) p = Some (JStr (take 1000 (js_trim s)))"
  using assms
proof (induction p arbitrary: v)
  case Nil
  then show ?case by simp
next
  case (Cons k ks)
  from Cons.prems(2) have k: "k \<notin> set dangerous_keys" by auto
  from Cons.prems(3) obtain w where w: "map_of (own_entries v) k = Some w"
    and rest: "at_path w ks = Some (JStr s)"
    by (auto split: option.splits)
  show ?case
  proof (cases ks)
    case Nil
    with rest have "w = JStr s" by simp
    with w k show ?thesis by (simp add: Nil own_entries_deepSanitize)
  next
    case (Cons k' ks')
    with rest have inner: "map_of (own_entries w) k' \<noteq> None" by (auto split: option.splits)
    then have same: "(case w of JStr s \<Rightarrow> JStr (take 1000 (js_trim s)) | _ \<Rightarrow> deepSanitize w)
        = deepSanitize w"
      by (cases w) simp_all
    have "at_path (deepSanitize w) ks = Some (JStr (take 1000 (js_trim s)))"
      using Cons.prems(2) rest Cons by (intro Cons.IH) auto
    with w k same show ?thesis by (simp add: own_entries_deepSanitize)
  qed
qed

lemma validateRequest_guide_strings:
  assumes "validateRequest_guide body = Valid d"
    and "p \<noteq> []" and "set p \<inter> set dangerous_keys = {}"
    and "at_path body p = Some (JStr s)"
  shows "at_path d p = Some (JStr (take 1000 (js_trim s)))
       \<and> length (take 1000 (js_trim s)) \<le> 1000
       \<and> (1000 < length (js_trim s) \<longrightarrow> length (take 1000 (js_trim s)) = 1000)"
proof -
  let ?top = "JObj (delete_key ''prototype'' (delete_key ''constructor''
                (delete_key ''__proto__'' (own_entries body))))"
  from assms(1) have d: "d = deepSanitize ?top"
    by (auto simp add: validateRequest_guide_def split: if_splits)
  from assms(2) obtain k ks where p: "p = k # ks" by (cases p) auto
  with assms(3) have "k \<noteq> ''prototype''" "k \<noteq> ''constructor''" "k \<noteq> ''__proto__''"
    by (auto simp add: dangerous_keys_def)
  then have "map_of (own_entries ?top) k = map_of (own_entries body) k"
    by (simp add: map_of_delete_key)
  with assms(4) have "at_path ?top p = Some (JStr s)" by (simp add: p)
  then have "at_path d p = Some (JStr (take 1000 (js_trim s)))"
    unfolding d using assms(2,3) by (intro deepSanitize_path)
  then show ?thesis by simp
qed

text \<open>
  Claim C3. The claim holds for the validator of the security guide
  (\<open>validateRequest_guide_clean\<close>). The middleware's \<open>validateRequest\<close>, which the
  routes import, returns the payload below as it came: the cleaned data still has
  \<open>constructor\<close> and \<open>prototype\<close> inside \<open>profile\<close>, which the guide's validator
  removes.
\<close>

theorem validateRequest_keeps_nested_keys:
  "validateRequest nested_payload = Valid nested_payload
   \<and> dangerous_in nested_payload
   \<and> validateRequest_guide nested_payload
       = Valid (JObj [(''email'', JStr ''test@example.com''), (''profile'', JObj [])])"
  by (simp add: validateRequest_def validateRequest_guide_def nested_payload_def delete_key_def
      dangerous_keys_def js_trim_def is_js_space_def)

text \<open>
  Claim C4. The claim holds for the validator of the security guide
  (\<open>validateRequest_guide_strings\<close>). The middleware's \<open>validateRequest\<close> returns the
  payload below as it came: \<open>name\<close> keeps its surrounding spaces and \<open>bio\<close> its 1001
  characters, where the guide's validator trims the one and cuts the other to 1000.
\<close>

theorem validateRequest_keeps_strings:
  "validateRequest padded_payload = Valid padded_payload
   \<and> at_path padded_payload [''name''] = Some (JStr ''  Test User  '')
   \<and> js_trim ''  Test User  '' = ''Test User''
   \<and> at_path padded_payload [''bio''] = Some (JStr (replicate 1001 (CHR ''x'')))
   \<and> length (replicate 1001 (CHR ''x'')) = 1001
   \<and> validateRequest_guide padded_payload
       = Valid (JObj [(''name'', JStr ''Test User''), (''bio'', JStr (replicate 1000 (CHR ''x'')))])"
  by (simp add: validateRequest_def validateRequest_guide_def padded_payload_def delete_key_def
      js_trim_def is_js_space_def dangerous_keys_def dropWhile_replicate)

end
